theory Spec2Isabelle
  imports Complex_Main "HOL-Library.Multiset" "HOL-Library.List_Lexorder" "HOL-Library.Char_ord"
begin

section \<open>The world-graph engine of nex: data model\<close>

text \<open>
  The engine is JavaScript. Its numbers are modelled as \<^typ>\<open>real\<close> (the exact value the
  double arithmetic approximates; the warp step of the decay engine, where a claim depends
  on the rounding, is modelled with the rounding of doubles), its strings as \<^typ>\<open>string\<close>, its arrays as lists and
  its objects as records. Objects are mutated in place by the source; the model passes the
  updated value on.  \<open>Math.random()\<close> and \<open>Date.now()\<close> are arguments of the functions
  that call them, so every theorem holds for every draw and every clock value.

  A room is what \<open>RoomGenerator.generateRoom\<close> builds (\<open>engine/rooms.js\<close>), plus the
  fields later stages attach: \<open>commentary\<close>, \<open>traces\<close>, \<open>lastRefreshedCycle\<close> and
  \<open>_addedCycle\<close>. A field that may be \<open>undefined\<close> is an option; an absent \<open>traces\<close>
  array is the empty list, since the source replaces it by \<open>[]\<close> before every use.
\<close>

record entropy =
  score :: real
  halfLife :: real
  createdAt :: real

record fragments =
  sentences :: "string list"
  words :: "string list"

record dimensions =
  width :: real
  height :: real
  depth :: real

record trace =
  traceFrom :: string
  traceTopic :: string
  echo :: string
  absorbedAt :: real

record room =
  rid :: string
  name :: string
  topic :: string
  lightColor :: string
  dimensions :: dimensions
  sentiment :: real
  virality :: real
  entropy :: entropy
  fragments :: fragments
  connections :: "string list"
  position :: "real \<times> real"
  commentary :: "string option"
  traces :: "trace list"
  lastRefreshedCycle :: "int option"
  addedCycle :: "int option"

text \<open>
  A room as \<open>generateRoom\<close> returns it for an observation of the given topic, sentiment
  and virality, created at time \<open>t\<close>: \<open>calculateEntropy\<close> gives score 0 and half-life
  \<open>3600 * (1 + virality * 2)\<close>, connections and position are empty. Dimensions, name and
  light colour are arguments (they come from rounding and a random pick).
\<close>

definition generatedRoom ::
  "string \<Rightarrow> string \<Rightarrow> real \<Rightarrow> real \<Rightarrow> real \<Rightarrow> dimensions \<Rightarrow> fragments \<Rightarrow> room" where
  "generatedRoom i tp sent vir t dims frags =
     \<lparr> rid = i, name = ''Hallway 7B'', topic = tp, lightColor = ''#ffcc44'',
       dimensions = dims, sentiment = sent, virality = vir,
       entropy = \<lparr> score = 0, halfLife = 3600 * (1 + vir * 2), createdAt = t \<rparr>,
       fragments = frags, connections = [], position = (0, 0),
       commentary = None, traces = [], lastRefreshedCycle = None, addedCycle = None \<rparr>"

section \<open>TopologyEngine.similarity\<close>

text \<open>
  \<open>similarity(roomA, roomB)\<close>, identical in \<open>engine/topology.js\<close> and in the version
  embedded in \<open>engine/world.js\<close>: the running \<open>score\<close> of the source is the chain of
  \<open>let\<close>s.
\<close>

definition similarity :: "room \<Rightarrow> room \<Rightarrow> real" where
  "similarity roomA roomB =
     (let score0 = (if topic roomA = topic roomB then 0 + 0.5 else 0);
          sentDiff = \<bar>sentiment roomA - sentiment roomB\<bar>;
          score1 = score0 + (1 - sentDiff) * 0.3;
          virDiff = \<bar>virality roomA - virality roomB\<bar>;
          score2 = score1 + max 0 (1 - virDiff / 5) * 0.2
      in score2)"

section \<open>DecayEngine\<close>

text \<open>
  \<open>tick(rooms, now)\<close>: the score written to one room is \<open>decayScore\<close>; \<open>tickRoom\<close> is the
  room after the write, and \<open>tickStep\<close> is one pass of the loop body, pushing the room to
  one of the three result arrays.  The model needs a half-life different from 0 (the
  generator gives at least 3600): JavaScript divides by 0 to an infinity or NaN, HOL to 0.
  Over the reals \<open>exp\<close> is never 0, so the \<open>collapsed\<close> branch is only reached by the
  rounding of doubles.
\<close>

definition decayScore :: "real \<Rightarrow> room \<Rightarrow> real" where
  "decayScore now room =
     (let elapsed = (now - createdAt (entropy room)) / 1000;
          decay = 1 - exp (- 0.693 * elapsed / halfLife (entropy room))
      in min 1 decay)"

definition tickRoom :: "real \<Rightarrow> room \<Rightarrow> room" where
  "tickRoom now room = room\<lparr> entropy := (entropy room)\<lparr> score := decayScore now room \<rparr> \<rparr>"

record tickResult =
  active :: "room list"
  decayed :: "room list"
  collapsed :: "room list"

definition tickStep :: "real \<Rightarrow> tickResult \<Rightarrow> room \<Rightarrow> tickResult" where
  "tickStep now res room0 =
     (let room = tickRoom now room0 in
      if score (entropy room) \<ge> 1 then res\<lparr> collapsed := collapsed res @ [room] \<rparr>
      else if score (entropy room) \<ge> 0.7 then res\<lparr> decayed := decayed res @ [room] \<rparr>
      else res\<lparr> active := active res @ [room] \<rparr>)"

definition tick :: "room list \<Rightarrow> real \<Rightarrow> tickResult" where
  "tick rooms now = foldl (tickStep now) \<lparr> active = [], decayed = [], collapsed = [] \<rparr> rooms"

text \<open>
  The warp step of \<open>applyEffects\<close> is modelled with the rounding of JavaScript numbers: its
  claim compares a product with the value it came from, which the rounding decides.  A
  JavaScript number is an IEEE 754 binary64 value and every arithmetic operation returns
  the exact result rounded to the nearest such value, ties to the even significand.
  \<open>fl x\<close> is that rounding of the real \<open>x\<close>: \<open>binExp x\<close> is the binary exponent of \<open>x\<close>
  (the \<open>k\<close> with \<open>2^k \<le> |x| < 2^(k+1)\<close>, found by halving or doubling, between \<open>-1074\<close>
  and \<open>1023\<close>), the significand has 53 bits, so the spacing of the representable values
  around \<open>x\<close> is \<open>2^(k-52)\<close>, and not below \<open>2^(-1074)\<close> (the subnormal values).  Results of
  magnitude \<open>2^1024\<close> and above, which JavaScript rounds to an infinity, and NaN are outside
  the model.
\<close>

definition pow2 :: "int \<Rightarrow> real" where
  "pow2 k = (if 0 \<le> k then 2 ^ nat k else 1 / 2 ^ nat (- k))"

fun expUp :: "nat \<Rightarrow> real \<Rightarrow> int" where
  "expUp 0 x = 0"
| "expUp (Suc n) x = (if 2 \<le> x then 1 + expUp n (x / 2) else 0)"

fun expDown :: "nat \<Rightarrow> real \<Rightarrow> int" where
  "expDown 0 x = 0"
| "expDown (Suc n) x = (if x < 1 then expDown n (x * 2) - 1 else 0)"

definition binExp :: "real \<Rightarrow> int" where
  "binExp x = (if 1 \<le> \<bar>x\<bar> then expUp 1023 \<bar>x\<bar> else expDown 1074 \<bar>x\<bar>)"

definition roundHalfEven :: "real \<Rightarrow> int" where
  "roundHalfEven y =
     (let f = \<lfloor>y\<rfloor> in
      if y - of_int f < 1 / 2 then f
      else if 1 / 2 < y - of_int f then f + 1
      else if even f then f else f + 1)"

definition fl :: "real \<Rightarrow> real" where
  "fl x = (let q = pow2 (max (binExp x - 52) (- 1074))
           in of_int (roundHalfEven (x / q)) * q)"

text \<open>
  \<open>applyEffects(rooms)\<close>, for one room. \<open>scrambleText\<close> and \<open>dimColor\<close> are arguments:
  the first draws a random number per character, the second reformats a hex colour, and
  neither touches the dimensions. \<open>u\<close> is the value of the \<open>Math.random()\<close> call of the
  warp step.

  \<open>warpFactor e u\<close> is the constant \<open>warp\<close> of the source,
  \<open>1 + (Math.random() - 0.5) * e * 0.4\<close>, evaluated from left to right with one rounding
  per operation; the literal \<open>0.4\<close> is the double nearest to \<open>0.4\<close>, and \<open>0.5\<close>, \<open>1\<close> and \<open>2\<close>
  are doubles.  \<open>width *= warp\<close> stores the rounded product, and \<open>height *= (2 - warp)\<close>
  rounds the difference and then the product.
\<close>

definition warpFactor :: "real \<Rightarrow> real \<Rightarrow> real" where
  "warpFactor e u = fl (1 + fl (fl (fl (u - 0.5) * e) * fl 0.4))"

definition warpDimensions :: "real \<Rightarrow> real \<Rightarrow> dimensions \<Rightarrow> dimensions" where
  "warpDimensions e u d =
     (let warp = warpFactor e u;
          d1 = d\<lparr> width := fl (width d * warp) \<rparr>
      in d1\<lparr> height := fl (height d1 * fl (2 - warp)) \<rparr>)"

definition applyEffectsRoom ::
  "(string \<Rightarrow> real \<Rightarrow> string) \<Rightarrow> (string \<Rightarrow> real \<Rightarrow> string) \<Rightarrow> real \<Rightarrow> room \<Rightarrow> room" where
  "applyEffectsRoom scrambleText dimColor u room =
     (let e = score (entropy room);
          r1 = (if e > 0.3
                then room\<lparr> fragments := (fragments room)
                        \<lparr> sentences := map (\<lambda>s. scrambleText s e) (sentences (fragments room)) \<rparr> \<rparr>
                else room);
          r2 = (if e > 0.5 then r1\<lparr> lightColor := dimColor (lightColor r1) e \<rparr> else r1);
          r3 = (if e > 0.6 then r2\<lparr> dimensions := warpDimensions e u (dimensions r2) \<rparr> else r2)
      in r3)"

text \<open>The \<open>k\<close>-th room of the array gets the \<open>k\<close>-th warp draw.\<close>

definition applyEffects ::
  "(string \<Rightarrow> real \<Rightarrow> string) \<Rightarrow> (string \<Rightarrow> real \<Rightarrow> string) \<Rightarrow> (nat \<Rightarrow> real) \<Rightarrow> room list \<Rightarrow> room list" where
  "applyEffects scrambleText dimColor rnd rooms =
     map (\<lambda>k. applyEffectsRoom scrambleText dimColor (rnd k) (rooms ! k)) [0..<length rooms]"




section \<open>Corridors, artifacts, events, inhabitants and the world state\<close>

text \<open>
  A corridor as \<open>addCorridor\<close> pushes it; \<open>from\<close> and \<open>to\<close> are \<open>fromRoom\<close> and
  \<open>toRoom\<close>.  An artifact is what \<open>DecayEngine.harvestFragments\<close> or \<open>PruneEngine.prune\<close>
  pushes to \<open>state.artifacts\<close>; the second writes three more fields.  The \<open>description\<close>
  of an event is a formatted string (\<open>toFixed\<close>) of the name or topic kept in \<open>subject\<close>
  and is not modelled.
\<close>

record corridor =
  corridorId :: string
  fromRoom :: string
  toRoom :: string
  corridorSimilarity :: real
  corridorWidth :: real
  corridorLength :: real
  corridorDecay :: real

record artifact =
  sourceRoom :: string
  sourceName :: "string option"
  sourceTopic :: string
  artifactWords :: "string list"
  artifactSentiment :: real
  artifactCommentary :: "string option"
  collapsedAt :: real
  artifactCycle :: "int option"

datatype eventType = RoomPruned | TopicEmerged | TopicDeath | EntityDominant | MassCollapse

record event =
  timestamp :: real
  eventKind :: eventType
  subject :: string
  involvedRooms :: "string list"
  involvedEntities :: "string list"

datatype entityType = Person | Concept

record movement =
  movedFrom :: string
  movedTo :: string
  movedAt :: real

record entity =
  entityId :: string
  entityName :: string
  entityType :: entityType
  topics :: "string list"
  appearances :: nat
  firstSeen :: real
  lastSeen :: real
  strength :: real
  currentRoom :: "string option"
  recentContexts :: "string list"
  history :: "movement list"

record stats =
  totalRooms :: nat
  totalCorridors :: nat
  statTopics :: "string list"
  avgSentiment :: real
  avgVirality :: real

text \<open>
  \<open>state.memory\<close> is written by \<open>MemoryEngine.update\<close> only; its content is of type
  \<open>'m\<close>, and \<open>None\<close> is an absent \<open>memory\<close> field.
\<close>

record 'm worldState =
  version :: nat
  stateCreatedAt :: real
  lastUpdate :: "real option"
  observationCycles :: int
  rooms :: "room list"
  corridors :: "corridor list"
  artifacts :: "artifact list"
  entities :: "entity list"
  events :: "event list"
  memory :: "'m option"
  stats :: "stats option"

section \<open>PruneEngine\<close>

text \<open>
  Every room carries an entropy record and fragments (the generator attaches them, and
  \<open>tick\<close> reads \<open>room.entropy\<close> unguarded), so the guards \<open>room.entropy && ...\<close> and
  \<open>room.fragments && ...\<close> of \<open>prune\<close> are true, and so are the defaults
  \<open>state.rooms || []\<close> and \<open>state.observationCycles || 0\<close> for a state that has these
  fields.

  \<open>room.lastRefreshedCycle || room._addedCycle || 0\<close>: \<open>undefined\<close> and \<open>0\<close> are both
  falsy.
\<close>

definition lastTouched :: "room \<Rightarrow> int" where
  "lastTouched room =
     (case lastRefreshedCycle room of
        Some n \<Rightarrow> if n \<noteq> 0 then n
                  else (case addedCycle room of Some m \<Rightarrow> if m \<noteq> 0 then m else 0 | None \<Rightarrow> 0)
      | None \<Rightarrow> (case addedCycle room of Some m \<Rightarrow> if m \<noteq> 0 then m else 0 | None \<Rightarrow> 0))"

text \<open>
  The adjacency map: a JavaScript \<open>Map\<close> from room id to a \<open>Set\<close> of ids. A \<open>Set\<close>
  keeps insertion order and ignores a second \<open>add\<close> of the same value.
\<close>

definition setAdd :: "'a list \<Rightarrow> 'a \<Rightarrow> 'a list" where
  "setAdd s x = (if x \<in> set s then s else s @ [x])"

definition addNeighbor :: "(string \<rightharpoonup> string list) \<Rightarrow> string \<Rightarrow> string \<Rightarrow> (string \<rightharpoonup> string list)" where
  "addNeighbor m a b = (case m a of Some s \<Rightarrow> m(a \<mapsto> setAdd s b) | None \<Rightarrow> m)"

definition buildNeighbors :: "room list \<Rightarrow> corridor list \<Rightarrow> (string \<rightharpoonup> string list)" where
  "buildNeighbors rs cs =
     foldl (\<lambda>m c. addNeighbor (addNeighbor m (fromRoom c) (toRoom c)) (toRoom c) (fromRoom c))
       (foldl (\<lambda>m room. m(rid room \<mapsto> [])) Map.empty rs) cs"

text \<open>The first loop of \<open>prune\<close>: one pass of the body, on the pair \<open>(toPrune, toKeep)\<close>.\<close>

definition pruneAge :: "int \<Rightarrow> room \<Rightarrow> int" where
  "pruneAge currentCycle room = currentCycle - lastTouched room"

definition classifyStep :: "int \<Rightarrow> int \<Rightarrow> room list \<times> room list \<Rightarrow> room \<Rightarrow> room list \<times> room list" where
  "classifyStep currentCycle staleCycles acc room =
     (let age = pruneAge currentCycle room;
          isStale = (age \<ge> staleCycles);
          isDecaying = (score (entropy room) \<ge> 0.6)
      in if isStale \<and> isDecaying then (fst acc @ [room], snd acc)
         else if isStale \<and> score (entropy room) \<ge> 0.4
         then (fst acc, snd acc @
                 [room\<lparr> entropy := (entropy room)\<lparr> score := min 1 (score (entropy room) + 0.15) \<rparr> \<rparr>])
         else (fst acc, snd acc @ [room]))"

text \<open>
  The second loop. \<open>pushTrace\<close> is \<open>traces.push(...)\<close> followed by
  \<open>if (traces.length > 5) traces.shift()\<close>; \<open>findIndex\<close> is the position of the object
  \<open>toKeep.find(...)\<close> returns, which the source then mutates.
\<close>

definition roomEcho :: "room \<Rightarrow> string" where
  "roomEcho room =
     (case sentences (fragments room) of
        [] \<Rightarrow> ''...''
      | s # _ \<Rightarrow> if s = [] then ''...'' else s)"

definition traceOf :: "real \<Rightarrow> room \<Rightarrow> trace" where
  "traceOf now room =
     \<lparr> traceFrom = name room, traceTopic = topic room, echo = roomEcho room, absorbedAt = now \<rparr>"

definition pushTrace :: "trace \<Rightarrow> room \<Rightarrow> room" where
  "pushTrace t r =
     (let ts = traces r @ [t] in r\<lparr> traces := (if length ts > 5 then tl ts else ts) \<rparr>)"

fun findIndex :: "('a \<Rightarrow> bool) \<Rightarrow> 'a list \<Rightarrow> nat option" where
  "findIndex P [] = None"
| "findIndex P (x # xs) =
     (if P x then Some 0 else (case findIndex P xs of None \<Rightarrow> None | Some i \<Rightarrow> Some (Suc i)))"

definition traceNeighbor :: "trace \<Rightarrow> room list \<Rightarrow> string \<Rightarrow> room list" where
  "traceNeighbor t toKeep neighborId =
     (case findIndex (\<lambda>r. rid r = neighborId) toKeep of
        None \<Rightarrow> toKeep
      | Some i \<Rightarrow> toKeep[i := pushTrace t (toKeep ! i)])"

definition pruneFragment :: "real \<Rightarrow> int \<Rightarrow> room \<Rightarrow> artifact" where
  "pruneFragment now currentCycle room =
     \<lparr> sourceRoom = rid room, sourceName = Some (name room), sourceTopic = topic room,
       artifactWords = take 4 (words (fragments room)),
       artifactSentiment = sentiment room,
       artifactCommentary =
         (case commentary room of
            None \<Rightarrow> None
          | Some c \<Rightarrow> if c = [] then None else Some (take 80 c)),
       collapsedAt = now, artifactCycle = Some currentCycle \<rparr>"

record pruneAcc =
  accKeep :: "room list"
  accFragments :: "artifact list"
  accEvents :: "event list"

text \<open>
  One pass of the second loop for the pruned room \<open>room\<close>; \<open>u\<close> is the value
  \<open>Math.random()\<close> returns if the absorption branch draws one (a number in \<open>[0, 1)\<close>).
\<close>

definition pruneStep ::
  "real \<Rightarrow> int \<Rightarrow> (string \<rightharpoonup> string list) \<Rightarrow> string list \<Rightarrow> pruneAcc \<Rightarrow> room \<times> real \<Rightarrow> pruneAcc" where
  "pruneStep now currentCycle neighbors prunedIds acc roomu =
     (let room = fst roomu; u = snd roomu;
          roomNeighbors = (case neighbors (rid room) of Some s \<Rightarrow> s | None \<Rightarrow> []);
          livingNeighbors = filter (\<lambda>i. i \<notin> set prunedIds) roomNeighbors;
          fragment = pruneFragment now currentCycle room;
          keep1 = foldl (traceNeighbor (traceOf now room)) (accKeep acc) livingNeighbors;
          sameTopic = filter (\<lambda>i. topic (keep1 ! i) = topic room) [0..<length keep1];
          keep2 =
            (if length livingNeighbors = 0 \<and> length sameTopic > 0
             then (let target = sameTopic ! nat \<lfloor>u * real (min 3 (length sameTopic))\<rfloor>
                   in keep1[target := pushTrace (traceOf now room) (keep1 ! target)])
             else keep1)
      in \<lparr> accKeep = keep2,
           accFragments = accFragments acc @ [fragment],
           accEvents = accEvents acc @
             [\<lparr> timestamp = now, eventKind = RoomPruned, subject = name room,
                involvedRooms = rid room # take 3 livingNeighbors, involvedEntities = [] \<rparr>] \<rparr>)"

record pruneResult =
  kept :: "room list"
  pruned :: "room list"
  prunedFragments :: "artifact list"
  pruneEvents :: "event list"

text \<open>
  \<open>prune(state, staleCycles)\<close>. \<open>rnd k\<close> is the draw available to the \<open>k\<close>-th pruned
  room, \<open>now\<close> the value of \<open>Date.now()\<close>.
\<close>

definition prune :: "(nat \<Rightarrow> real) \<Rightarrow> real \<Rightarrow> 'm worldState \<Rightarrow> int \<Rightarrow> pruneResult" where
  "prune rnd now state staleCycles =
     (let currentCycle = observationCycles state;
          neighbors = buildNeighbors (rooms state) (corridors state);
          cl = foldl (classifyStep currentCycle staleCycles) ([], []) (rooms state);
          toPrune = fst cl; toKeep = snd cl;
          prunedIds = map rid toPrune;
          acc = foldl (pruneStep now currentCycle neighbors prunedIds)
                  \<lparr> accKeep = toKeep, accFragments = [], accEvents = [] \<rparr>
                  (zip toPrune (map rnd [0..<length toPrune]))
      in \<lparr> kept = accKeep acc, pruned = toPrune,
           prunedFragments = accFragments acc, pruneEvents = accEvents acc \<rparr>)"

text \<open>\<open>refreshRooms(rooms, newRooms, currentCycle)\<close> returns both arrays after the writes.\<close>

definition refreshRooms :: "room list \<Rightarrow> room list \<Rightarrow> int \<Rightarrow> room list \<times> room list" where
  "refreshRooms rs newRooms currentCycle =
     (let newTopics = map topic newRooms
      in (map (\<lambda>room. if topic room \<in> set newTopics
                       then room\<lparr> lastRefreshedCycle := Some currentCycle \<rparr> else room) rs,
          map (\<lambda>room. room\<lparr> lastRefreshedCycle := Some currentCycle,
                            addedCycle := Some currentCycle \<rparr>) newRooms))"

text \<open>
  For stating what \<open>prune\<close> does: \<open>prunable\<close> is the test of the first branch of the
  classification loop, \<open>boosted\<close> the room the other two branches push to \<open>toKeep\<close>,
  and \<open>dropTraces\<close> forgets the \<open>traces\<close> field (the only field the second loop writes).
\<close>

definition dropTraces :: "room \<Rightarrow> room" where
  "dropTraces r = r\<lparr> traces := [] \<rparr>"

definition prunable :: "int \<Rightarrow> int \<Rightarrow> room \<Rightarrow> bool" where
  "prunable currentCycle staleCycles room =
     (pruneAge currentCycle room \<ge> staleCycles \<and> score (entropy room) \<ge> 0.6)"

definition boosted :: "int \<Rightarrow> int \<Rightarrow> room \<Rightarrow> room" where
  "boosted currentCycle staleCycles room =
     (if pruneAge currentCycle room \<ge> staleCycles \<and> score (entropy room) \<ge> 0.4
      then room\<lparr> entropy := (entropy room)\<lparr> score := min 1 (score (entropy room) + 0.15) \<rparr> \<rparr>
      else room)"

section \<open>EntityTracker.wander\<close>

text \<open>
  The tracker's \<open>entities\<close> map is iterated in insertion order: a list of inhabitants.
  \<open>wanderEntity\<close> is one pass of the loop body of \<open>wander(rooms)\<close>; the \<open>continue\<close> of the
  source is the first branch. \<open>u\<close> is the value of \<open>Math.random()\<close>; \<open>sort\<close> with the
  comparator \<open>a.entropy.score - b.entropy.score\<close> is a stable ascending sort.
\<close>

definition pushMovement :: "movement \<Rightarrow> entity \<Rightarrow> entity" where
  "pushMovement m e =
     (let h = history e @ [m] in e\<lparr> history := (if length h > 20 then tl h else h) \<rparr>)"

definition wanderEntity :: "real \<Rightarrow> real \<Rightarrow> room list \<Rightarrow> entity \<Rightarrow> entity" where
  "wanderEntity now u rs entity =
     (let relevantRooms = filter (\<lambda>r. topic r \<in> set (topics entity)) rs
      in if length relevantRooms = 0 then entity
         else
           (let sorted = sort_key (\<lambda>r. score (entropy r)) relevantRooms;
                pick = sorted ! nat \<lfloor>u * real (min 3 (length sorted))\<rfloor>;
                previousRoom = currentRoom entity;
                e1 = entity\<lparr> currentRoom := Some (rid pick) \<rparr>
            in case previousRoom of
                 None \<Rightarrow> e1
               | Some p \<Rightarrow>
                   if p \<noteq> [] \<and> p \<noteq> rid pick
                   then pushMovement \<lparr> movedFrom = p, movedTo = rid pick, movedAt = now \<rparr> e1
                   else e1))"

text \<open>The \<open>k\<close>-th inhabitant gets the draw \<open>rnd k\<close>.\<close>

definition wander :: "real \<Rightarrow> (nat \<Rightarrow> real) \<Rightarrow> room list \<Rightarrow> entity list \<Rightarrow> entity list" where
  "wander now rnd rs ents =
     map (\<lambda>k. wanderEntity now (rnd k) rs (ents ! k)) [0..<length ents]"

section \<open>EventTracker\<close>

text \<open>
  \<open>detect(state, context)\<close> with \<open>context = { newRooms, prunedRooms, pruneEvents }\<close>.
  A JavaScript \<open>Set\<close> of topics is a duplicate-free list in insertion order.
\<close>

definition topicEvent :: "real \<Rightarrow> eventType \<Rightarrow> room list \<Rightarrow> string \<Rightarrow> event" where
  "topicEvent now kind rs t =
     \<lparr> timestamp = now, eventKind = kind, subject = t,
       involvedRooms = map rid (filter (\<lambda>r. topic r = t) rs), involvedEntities = [] \<rparr>"

definition dominantEvent :: "real \<Rightarrow> entity \<Rightarrow> event" where
  "dominantEvent now entity =
     \<lparr> timestamp = now, eventKind = EntityDominant, subject = entityName entity,
       involvedRooms = (case currentRoom entity of
                          None \<Rightarrow> []
                        | Some r \<Rightarrow> if r = [] then [] else [r]),
       involvedEntities = [entityId entity] \<rparr>"

definition detect ::
  "real \<Rightarrow> 'm worldState \<Rightarrow> room list \<Rightarrow> room list \<Rightarrow> event list \<Rightarrow> event list" where
  "detect now state newRooms prunedRooms pruneEvs =
     (let events0 = [] @ pruneEvs;
          existingTopics = map topic (rooms state);
          newTopics = foldl (\<lambda>s room. if topic room \<notin> set existingTopics
                                       then setAdd s (topic room) else s) [] newRooms;
          events1 = events0 @ map (topicEvent now TopicEmerged newRooms) newTopics;
          events2 =
            (if length prunedRooms > 0
             then (let prunedTopics = foldl setAdd [] (map topic prunedRooms);
                       remainingTopics = map topic (rooms state)
                   in events1 @ map (topicEvent now TopicDeath prunedRooms)
                        (filter (\<lambda>t. t \<notin> set remainingTopics) prunedTopics))
             else events1);
          strong = filter (\<lambda>e. strength e \<ge> 0.8) (entities state);
          events3 = events2 @ map (dominantEvent now) strong;
          events4 =
            (if length prunedRooms \<ge> 10
             then events3 @
               [\<lparr> timestamp = now, eventKind = MassCollapse, subject = [],
                  involvedRooms = map rid (take 10 prunedRooms), involvedEntities = [] \<rparr>]
             else events3)
      in events4)"

text \<open>\<open>record(state, newEvents)\<close>: append, then keep the last 100.\<close>

definition recordEvents :: "'m worldState \<Rightarrow> event list \<Rightarrow> 'm worldState" where
  "recordEvents state newEvents =
     (let evs = events state @ newEvents
      in state\<lparr> events := (if length evs > 100 then drop (length evs - 100) evs else evs) \<rparr>)"

section \<open>TopologyEngine.generateCorridors\<close>

text \<open>
  The version of \<open>generateCorridors(rooms, threshold)\<close> that \<open>World.cycle\<close> runs (the
  \<open>TopologyEngine\<close> embedded in \<open>engine/world.js\<close>).  The function mutates the room
  objects through several references (\<open>rooms[i]\<close>, the arrays of \<open>byTopic\<close>, the
  arguments of \<open>addCorridor\<close>), so the room objects live in a store addressed by their
  position in \<open>rooms\<close>, and every other array holds positions.

  \<open>byTopic\<close> is a \<open>Map\<close> from topic to an array of rooms, iterated in insertion order:
  an association list.  \<open>corridorSet\<close> is a \<open>Set\<close> of key strings, only ever asked for
  membership.  \<open>draws\<close> counts the random sorts done so far.
\<close>

record topo =
  topoCorridors :: "corridor list"
  corridorSet :: "string set"
  store :: "room list"
  byTopic :: "(string \<times> nat list) list"
  draws :: nat

definition corridorKey :: "string \<Rightarrow> string \<Rightarrow> string" where
  "corridorKey ida idb = (if ida < idb then ida @ ''|'' @ idb else idb @ ''|'' @ ida)"

definition newCorridor :: "string \<Rightarrow> string \<Rightarrow> real \<Rightarrow> corridor" where
  "newCorridor ida idb sim =
     \<lparr> corridorId = ''corridor_'' @ ida @ ''_'' @ idb, fromRoom = ida, toRoom = idb,
       corridorSimilarity = sim, corridorWidth = 1 + sim * 3,
       corridorLength = max 2 ((1 - sim) * 10), corridorDecay = 0 \<rparr>"

definition pushConnection :: "string \<Rightarrow> room \<Rightarrow> room" where
  "pushConnection i r = r\<lparr> connections := connections r @ [i] \<rparr>"

text \<open>The closure \<open>addCorridor(a, b, sim)\<close>; \<open>a\<close> and \<open>b\<close> are positions of room objects.\<close>

definition addCorridor :: "nat \<Rightarrow> nat \<Rightarrow> real \<Rightarrow> topo \<Rightarrow> topo" where
  "addCorridor a b sim s =
     (let ida = rid (store s ! a); idb = rid (store s ! b);
          key = corridorKey ida idb
      in if key \<in> corridorSet s then s
         else
           (let st1 = (store s)[a := pushConnection idb (store s ! a)];
                st2 = st1[b := pushConnection ida (st1 ! b)]
            in s\<lparr> corridorSet := insert key (corridorSet s),
                  topoCorridors := topoCorridors s @ [newCorridor ida idb sim],
                  store := st2 \<rparr>))"

text \<open>Grouping by topic: \<open>byTopic.get(room.topic).push(room)\<close>, after creating the entry.\<close>

fun groupPush :: "string \<Rightarrow> nat \<Rightarrow> (string \<times> nat list) list \<Rightarrow> (string \<times> nat list) list" where
  "groupPush t i [] = [(t, [i])]"
| "groupPush t i ((t', g) # m) =
     (if t' = t then (t', g @ [i]) # m else (t', g) # groupPush t i m)"

definition groupByTopic :: "room list \<Rightarrow> (string \<times> nat list) list" where
  "groupByTopic rs = foldl (\<lambda>m i. groupPush (topic (rs ! i)) i m) [] [0..<length rs]"

definition getGroup :: "topo \<Rightarrow> string \<Rightarrow> nat list" where
  "getGroup s t = (case map_of (byTopic s) t of Some g \<Rightarrow> g | None \<Rightarrow> [])"

text \<open>
  Intra-topic connections. \<open>intraRoom\<close> is the body of the loop over \<open>i\<close>: the candidates
  \<open>j > i\<close> are scored, sorted by descending similarity (a stable sort) and the first five
  are connected when they reach the threshold.
\<close>

definition intraRoom :: "real \<Rightarrow> nat list \<Rightarrow> nat \<Rightarrow> topo \<Rightarrow> topo" where
  "intraRoom threshold grp i s =
     (let scored = map (\<lambda>j. (grp ! j, similarity (store s ! (grp ! i)) (store s ! (grp ! j))))
                     [i + 1..<length grp];
          sorted = sort_key (\<lambda>p. - snd p) scored
      in foldl (\<lambda>s' k. if snd (sorted ! k) \<ge> threshold
                        then addCorridor (grp ! i) (fst (sorted ! k)) (snd (sorted ! k)) s'
                        else s')
           s [0..<min 5 (length sorted)])"

definition intraGroup :: "real \<Rightarrow> nat list \<Rightarrow> topo \<Rightarrow> topo" where
  "intraGroup threshold grp s = foldl (\<lambda>s' i. intraRoom threshold grp i s') s [0..<length grp]"

definition intraTopic :: "real \<Rightarrow> topo \<Rightarrow> topo" where
  "intraTopic threshold s = foldl (\<lambda>s' tg. intraGroup threshold (snd tg) s') s (byTopic s)"

text \<open>
  Cross-topic connections.  For a group of more than five rooms the source sorts the
  group's array in place with a random comparator and takes the first five:
  \<open>shuffle k xs\<close> is the array after the \<open>k\<close>-th such sort, some rearrangement of \<open>xs\<close>,
  and it is written back to \<open>byTopic\<close>.  The loop over the other topics \<open>break\<close>s at the
  room's own topic and after three connections; the loop over the sample stops at the
  first candidate that reaches the threshold.
\<close>

definition setGroup :: "string \<Rightarrow> nat list \<Rightarrow> (string \<times> nat list) list \<Rightarrow> (string \<times> nat list) list" where
  "setGroup t g m = map (\<lambda>tg. if fst tg = t then (fst tg, g) else tg) m"

definition crossSample :: "(nat \<Rightarrow> nat list \<Rightarrow> nat list) \<Rightarrow> string \<Rightarrow> topo \<Rightarrow> nat list \<times> topo" where
  "crossSample shuffle otherTopic s =
     (let others = getGroup s otherTopic
      in if length others \<le> 5 then (others, s)
         else (let sorted = shuffle (draws s) others
               in (take 5 sorted,
                   s\<lparr> byTopic := setGroup otherTopic sorted (byTopic s), draws := Suc (draws s) \<rparr>)))"

fun crossTopics ::
  "(nat \<Rightarrow> nat list \<Rightarrow> nat list) \<Rightarrow> real \<Rightarrow> string \<Rightarrow> nat \<Rightarrow> string list \<Rightarrow> nat \<Rightarrow> topo \<Rightarrow> topo" where
  "crossTopics shuffle threshold tp room [] crossCount s = s"
| "crossTopics shuffle threshold tp room (otherTopic # rest) crossCount s =
     (if otherTopic = tp \<or> crossCount \<ge> 3 then s
      else
        (let smp = crossSample shuffle otherTopic s;
             s1 = snd smp
         in case find (\<lambda>other. similarity (store s1 ! room) (store s1 ! other) \<ge> threshold)
                   (fst smp) of
              None \<Rightarrow> crossTopics shuffle threshold tp room rest crossCount s1
            | Some other \<Rightarrow>
                crossTopics shuffle threshold tp room rest (crossCount + 1)
                  (addCorridor room other
                     (similarity (store s1 ! room) (store s1 ! other)) s1)))"

definition crossRoom ::
  "(nat \<Rightarrow> nat list \<Rightarrow> nat list) \<Rightarrow> real \<Rightarrow> string \<Rightarrow> string list \<Rightarrow> topo \<Rightarrow> nat \<Rightarrow> topo" where
  "crossRoom shuffle threshold tp tps s room =
     (if length (connections (store s ! room)) \<ge> 3 then s
      else crossTopics shuffle threshold tp room tps 0 s)"

definition crossGroup ::
  "(nat \<Rightarrow> nat list \<Rightarrow> nat list) \<Rightarrow> real \<Rightarrow> string list \<Rightarrow> topo \<Rightarrow> nat \<Rightarrow> topo" where
  "crossGroup shuffle threshold tps s gi =
     (let tg = byTopic s ! gi
      in foldl (crossRoom shuffle threshold (fst tg) tps) s (snd tg))"

definition crossTopic :: "(nat \<Rightarrow> nat list \<Rightarrow> nat list) \<Rightarrow> real \<Rightarrow> topo \<Rightarrow> topo" where
  "crossTopic shuffle threshold s =
     (let tps = map fst (byTopic s)
      in foldl (crossGroup shuffle threshold tps) s [0..<length (byTopic s)])"

text \<open>
  The connectivity pass. \<open>bestCandidate\<close> is the inner loop with its pair
  \<open>(bestSim, bestRoom)\<close>, started at \<open>(-1, null)\<close>; \<open>rooms.slice(0, 50)\<close> is the first 50
  positions.
\<close>

definition bestStep :: "room list \<Rightarrow> nat \<Rightarrow> real \<times> nat option \<Rightarrow> nat \<Rightarrow> real \<times> nat option" where
  "bestStep st room best other =
     (if rid (st ! other) = rid (st ! room) then best
      else (let sim = similarity (st ! room) (st ! other)
            in if sim > fst best then (sim, Some other) else best))"

definition bestCandidate :: "room list \<Rightarrow> nat \<Rightarrow> nat list \<Rightarrow> real \<times> nat option" where
  "bestCandidate st room candidates = foldl (bestStep st room) (- 1, None) candidates"

definition ensureRoom :: "topo \<Rightarrow> nat \<Rightarrow> topo" where
  "ensureRoom s room =
     (if length (connections (store s ! room)) = 0 \<and> length (store s) > 1
      then
        (let sameTopicRooms = getGroup s (topic (store s ! room));
             candidates = (if length sameTopicRooms > 1 then sameTopicRooms
                           else [0..<min 50 (length (store s))]);
             best = bestCandidate (store s) room candidates
         in case snd best of
              None \<Rightarrow> s
            | Some bestRoom \<Rightarrow> addCorridor room bestRoom (fst best) s)
      else s)"

definition ensureConnectivity :: "topo \<Rightarrow> topo" where
  "ensureConnectivity s = foldl ensureRoom s [0..<length (store s)]"

text \<open>The closure state at the start: no corridor, and the rooms grouped by topic.\<close>

definition initialTopo :: "room list \<Rightarrow> topo" where
  "initialTopo rs =
     \<lparr> topoCorridors = [], corridorSet = {}, store = rs, byTopic = groupByTopic rs, draws = 0 \<rparr>"

definition generateCorridors :: "(nat \<Rightarrow> nat list \<Rightarrow> nat list) \<Rightarrow> room list \<Rightarrow> real \<Rightarrow> topo" where
  "generateCorridors shuffle rs threshold =
     ensureConnectivity (crossTopic shuffle threshold (intraTopic threshold (initialTopo rs)))"

text \<open>
  For the proofs. A run of \<open>generateCorridors\<close> changes its state only by calls of
  \<open>addCorridor\<close> on rooms of the array and by sorting a group in place: \<open>topoReach\<close> is
  the states such steps lead to.  \<open>wfTopo\<close> says that the groups hold positions of the
  array, each once; \<open>edgesOk\<close> that \<open>corridorSet\<close> holds exactly the keys of the recorded
  corridors, each once, and that both ends of a recorded corridor list each other;
  \<open>dropConnections\<close> forgets the only field \<open>generateCorridors\<close> writes.
\<close>

definition wfTopo :: "nat \<Rightarrow> topo \<Rightarrow> bool" where
  "wfTopo n s \<longleftrightarrow>
     length (store s) = n \<and>
     (\<forall>tg \<in> set (byTopic s). distinct (snd tg) \<and> (\<forall>i \<in> set (snd tg). i < n))"

inductive topoReach :: "nat \<Rightarrow> topo \<Rightarrow> topo \<Rightarrow> bool" for n :: nat and s :: topo where
  reachRefl: "topoReach n s s"
| reachAdd: "topoReach n s s' \<Longrightarrow> a < n \<Longrightarrow> b < n \<Longrightarrow> topoReach n s (addCorridor a b sim s')"
| reachSort: "topoReach n s s' \<Longrightarrow> mset g' = mset (getGroup s' t) \<Longrightarrow>
     topoReach n s (s'\<lparr> byTopic := setGroup t g' (byTopic s'), draws := d \<rparr>)"

definition corridorPairKey :: "corridor \<Rightarrow> string" where
  "corridorPairKey c = corridorKey (fromRoom c) (toRoom c)"

definition dropConnections :: "room \<Rightarrow> room" where
  "dropConnections r = r\<lparr> connections := [] \<rparr>"

definition edgesOk :: "nat \<Rightarrow> topo \<Rightarrow> bool" where
  "edgesOk n s \<longleftrightarrow>
     corridorSet s = set (map corridorPairKey (topoCorridors s)) \<and>
     distinct (map corridorPairKey (topoCorridors s)) \<and>
     (\<forall>c \<in> set (topoCorridors s).
        \<exists>a b. a < n \<and> b < n \<and> fromRoom c = rid (store s ! a) \<and> toRoom c = rid (store s ! b) \<and>
              toRoom c \<in> set (connections (store s ! a)) \<and>
              fromRoom c \<in> set (connections (store s ! b)))"

section \<open>The earlier generateCorridors of engine/topology.js\<close>

text \<open>
  \<open>engine/topology.js\<close> holds the earlier \<open>generateCorridors(rooms, threshold)\<close>: every
  pair \<open>i < j\<close> is scored and connected when it reaches the threshold, then the same
  connectivity pass runs over all rooms. There is no key set; \<open>connectRooms\<close> is the three
  pushes both loops do.
\<close>

record plainTopo =
  plainCorridors :: "corridor list"
  plainStore :: "room list"

definition connectRooms :: "nat \<Rightarrow> nat \<Rightarrow> real \<Rightarrow> plainTopo \<Rightarrow> plainTopo" where
  "connectRooms a b sim s =
     (let ida = rid (plainStore s ! a); idb = rid (plainStore s ! b);
          st1 = (plainStore s)[a := pushConnection idb (plainStore s ! a)];
          st2 = st1[b := pushConnection ida (st1 ! b)]
      in \<lparr> plainCorridors = plainCorridors s @ [newCorridor ida idb sim], plainStore = st2 \<rparr>)"

definition pairStep :: "real \<Rightarrow> nat \<Rightarrow> plainTopo \<Rightarrow> nat \<Rightarrow> plainTopo" where
  "pairStep threshold i s j =
     (let sim = similarity (plainStore s ! i) (plainStore s ! j)
      in if sim \<ge> threshold then connectRooms i j sim s else s)"

definition pairLoop :: "real \<Rightarrow> plainTopo \<Rightarrow> plainTopo" where
  "pairLoop threshold s =
     foldl (\<lambda>s' i. foldl (pairStep threshold i) s' [i + 1..<length (plainStore s)])
       s [0..<length (plainStore s)]"

definition ensureRoomPlain :: "plainTopo \<Rightarrow> nat \<Rightarrow> plainTopo" where
  "ensureRoomPlain s room =
     (if length (connections (plainStore s ! room)) = 0 \<and> length (plainStore s) > 1
      then
        (let best = bestCandidate (plainStore s) room [0..<length (plainStore s)]
         in case snd best of
              None \<Rightarrow> s
            | Some bestRoom \<Rightarrow> connectRooms room bestRoom (fst best) s)
      else s)"

definition generateCorridorsPlain :: "room list \<Rightarrow> real \<Rightarrow> plainTopo" where
  "generateCorridorsPlain rs threshold =
     foldl ensureRoomPlain (pairLoop threshold \<lparr> plainCorridors = [], plainStore = rs \<rparr>)
       [0..<length rs]"


section \<open>World.cycle\<close>

text \<open>
  \<open>harvestFragments(room)\<close> and the statistics of \<open>buildTopology(rooms)\<close>.
  \<open>sum / rooms.length || 0\<close> is 0 for an empty array, as the division of HOL is.
\<close>

definition harvestFragments :: "real \<Rightarrow> room \<Rightarrow> artifact" where
  "harvestFragments now room =
     \<lparr> sourceRoom = rid room, sourceName = None, sourceTopic = topic room,
       artifactWords = take 3 (words (fragments room)),
       artifactSentiment = sentiment room, artifactCommentary = None,
       collapsedAt = now, artifactCycle = None \<rparr>"

definition topologyStats :: "room list \<Rightarrow> corridor list \<Rightarrow> stats" where
  "topologyStats rs cs =
     \<lparr> totalRooms = length rs, totalCorridors = length cs,
       statTopics = foldl setAdd [] (map topic rs),
       avgSentiment = sum_list (map sentiment rs) / real (length rs),
       avgVirality = sum_list (map virality rs) / real (length rs) \<rparr>"

text \<open>
  What the cycle takes from outside the engines modelled here: the clock, the random
  draws of each stage, and the collaborators that the claims do not look into
  (\<open>RoomGenerator.generateRooms\<close>, \<open>EntityTracker.update\<close>, \<open>scrambleText\<close> and \<open>dimColor\<close>,
  \<open>CommentaryGenerator.generate\<close>, the positions \<open>layoutRooms\<close> computes, the snapshot
  \<open>MemoryEngine.update\<close> stores).  \<open>'o\<close> is the type of observations.
\<close>

record ('o, 'm) env =
  envNow :: real
  generateRooms :: "'o list \<Rightarrow> room list"
  updateEntities :: "'o list \<Rightarrow> entity list \<Rightarrow> entity list"
  envScramble :: "string \<Rightarrow> real \<Rightarrow> string"
  envDimColor :: "string \<Rightarrow> real \<Rightarrow> string"
  warpDraw :: "nat \<Rightarrow> real"
  pruneDraw :: "nat \<Rightarrow> real"
  generateCommentary :: "room \<Rightarrow> string"
  wanderDraw :: "nat \<Rightarrow> real"
  envShuffle :: "nat \<Rightarrow> nat list \<Rightarrow> nat list"
  layoutPosition :: "room list \<Rightarrow> corridor list \<Rightarrow> nat \<Rightarrow> real \<times> real"
  memoryUpdate :: "'m worldState \<Rightarrow> 'm"

text \<open>
  The world is \<open>this.state\<close> (\<open>wState\<close>) and the inhabitants held by
  \<open>this.entityTracker\<close> (\<open>wTracker\<close>).
\<close>

record 'm world =
  wState :: "'m worldState"
  wTracker :: "entity list"

text \<open>
  Steps 4 to 8 of \<open>cycle(queries)\<close>, with the new rooms of step 2 and the tracker of
  step 3 as arguments.  The result is the state after the topology rebuild, the tracker
  after wandering, the new rooms as admitted, and the result of \<open>prune\<close>.  When nothing is
  pruned the source keeps \<open>state.rooms\<close>, whose room objects \<open>prune\<close> has already
  written to: that array is \<open>kept\<close> too.
\<close>

record 'm cycleMid =
  midState :: "'m worldState"
  midTracker :: "entity list"
  midNewRooms :: "room list"
  midPrune :: pruneResult

definition decayStep :: "('o, 'm) env \<Rightarrow> 'm worldState \<Rightarrow> 'm worldState" where
  "decayStep env st =
     (if length (rooms st) > 0
      then
        (let t = tick (rooms st) (envNow env);
             affected = applyEffects (envScramble env) (envDimColor env) (warpDraw env)
                          (active t @ decayed t)
         in st\<lparr> artifacts := artifacts st @ map (harvestFragments (envNow env)) (collapsed t),
               rooms := affected \<rparr>)
      else st)"

text \<open>
  \<open>buildTopology(rooms)\<close>: the corridors, the rooms with their connections and the
  positions \<open>layoutRooms\<close> gives them, and the statistics.  \<open>rebuildTopology\<close> is step 8
  of the cycle: the loop that empties every \<open>connections\<close> array, the call, and the two
  assignments to the state.
\<close>

record topology =
  topologyRooms :: "room list"
  topologyCorridors :: "corridor list"
  topologyStatistics :: stats

definition buildTopology :: "('o, 'm) env \<Rightarrow> room list \<Rightarrow> topology" where
  "buildTopology env rs =
     (let topo = generateCorridors (envShuffle env) rs 0.4;
          placed = map (\<lambda>k. (store topo ! k)
                           \<lparr> position := layoutPosition env (store topo) (topoCorridors topo) k \<rparr>)
                     [0..<length (store topo)]
      in \<lparr> topologyRooms = placed, topologyCorridors = topoCorridors topo,
           topologyStatistics = topologyStats placed (topoCorridors topo) \<rparr>)"

definition rebuildTopology :: "('o, 'm) env \<Rightarrow> 'm worldState \<Rightarrow> 'm worldState" where
  "rebuildTopology env st =
     (let cleared = map (\<lambda>room. room\<lparr> connections := [] \<rparr>) (rooms st);
          topo = buildTopology env cleared
      in st\<lparr> rooms := topologyRooms topo, corridors := topologyCorridors topo,
            stats := Some (topologyStatistics topo) \<rparr>)"

definition cycleMiddle ::
  "('o, 'm) env \<Rightarrow> room list \<Rightarrow> entity list \<Rightarrow> 'm worldState \<Rightarrow> 'm cycleMid" where
  "cycleMiddle env newRooms0 tracker1 state0 =
     (let state1 = decayStep env state0;
          refreshed = refreshRooms (rooms state1) newRooms0 (observationCycles state1);
          state2 = state1\<lparr> rooms := fst refreshed \<rparr>;
          pruneResult = prune (pruneDraw env) (envNow env) state2 5;
          state3 = (if length (pruned pruneResult) > 0
                    then state2\<lparr> rooms := kept pruneResult,
                                 artifacts := artifacts state2 @ prunedFragments pruneResult \<rparr>
                    else state2\<lparr> rooms := kept pruneResult \<rparr>);
          newRooms = map (\<lambda>room. room\<lparr> commentary := Some (generateCommentary env room) \<rparr>)
                       (snd refreshed);
          state4 = state3\<lparr> rooms := rooms state3 @ newRooms \<rparr>;
          tracker2 = wander (envNow env) (wanderDraw env) (rooms state4) tracker1;
          state5 = state4\<lparr> entities := tracker2 \<rparr>;
          state6 = rebuildTopology env state5
      in \<lparr> midState = state6, midTracker = tracker2, midNewRooms = newRooms,
           midPrune = pruneResult \<rparr>)"

text \<open>
  The events of step 9: \<open>EventTracker.detect(this.state, { newRooms, prunedRooms,
  pruneEvents })\<close>, called on the state after the new rooms were pushed and the topology
  rebuilt.
\<close>

definition cycleEvents :: "('o, 'm) env \<Rightarrow> 'm cycleMid \<Rightarrow> event list" where
  "cycleEvents env mid =
     detect (envNow env) (midState mid) (midNewRooms mid)
       (pruned (midPrune mid)) (pruneEvents (midPrune mid))"

text \<open>
  \<open>cycle(queries)\<close>; \<open>observations\<close> is what \<open>await this.observer.observe(queries)\<close>
  yields.  The first branch is the early \<open>return this.state\<close>.
\<close>

definition cycle :: "('o, 'm) env \<Rightarrow> 'o list \<Rightarrow> 'm world \<Rightarrow> 'm world" where
  "cycle env observations w =
     (if length observations = 0 then w
      else
        (let newRooms0 = generateRooms env observations;
             tracker1 = updateEntities env observations (wTracker w);
             mid = cycleMiddle env newRooms0 tracker1 (wState w);
             newEvents = cycleEvents env mid;
             state7 = recordEvents (midState mid) newEvents;
             state8 = state7\<lparr> observationCycles := observationCycles state7 + 1 \<rparr>;
             state9 = state8\<lparr> memory := Some (memoryUpdate env state8) \<rparr>;
             state10 = state9\<lparr> lastUpdate := Some (envNow env), version := 2 \<rparr>
         in \<lparr> wState = state10, wTracker = midTracker mid \<rparr>))"

section \<open>Concrete inputs\<close>

text \<open>Rooms used to run the model at explicit inputs.\<close>

definition unitDimensions :: dimensions where
  "unitDimensions = \<lparr> width = 3, height = 3, depth = 3 \<rparr>"

definition noFragments :: fragments where
  "noFragments = \<lparr> sentences = [], words = [] \<rparr>"

definition c1_room :: room where
  "c1_room = generatedRoom ''room_000000c1'' ''tech'' 0 0 0 unitDimensions noFragments"

definition c3_room :: room where
  "c3_room = generatedRoom ''room_000000c3'' ''tech'' 0 0 1000 unitDimensions noFragments"

definition c4_roomA :: room where
  "c4_roomA = generatedRoom ''room_0000000a'' ''tech'' 1 0 0 unitDimensions noFragments"

definition c4_roomB :: room where
  "c4_roomB = generatedRoom ''room_0000000b'' ''politics'' (- 1) 5 0 unitDimensions noFragments"


text \<open>
  Scenario B: at cycle 10 with \<open>staleCycles = 5\<close>, a room of age 5 and score \<open>0.6\<close>, a
  room of age 5 and score \<open>0.5\<close>, and a room of age 3; the first two share a corridor.
\<close>

definition staleRoom :: "string \<Rightarrow> string \<Rightarrow> real \<Rightarrow> int \<Rightarrow> room" where
  "staleRoom i tp sc cyc =
     (generatedRoom i tp 0 0 0 unitDimensions noFragments)
       \<lparr> entropy := \<lparr> score = sc, halfLife = 3600, createdAt = 0 \<rparr>,
         lastRefreshedCycle := Some cyc, addedCycle := Some cyc \<rparr>"

definition c7_hot :: room where "c7_hot = staleRoom ''room_0000007a'' ''tech'' 0.6 5"
definition c7_warm :: room where "c7_warm = staleRoom ''room_0000007b'' ''tech'' 0.5 5"
definition c7_fresh :: room where "c7_fresh = staleRoom ''room_0000007c'' ''culture'' 0.9 7"

definition c7_state :: "unit worldState" where
  "c7_state =
     \<lparr> version = 2, stateCreatedAt = 0, lastUpdate = None, observationCycles = 10,
       rooms = [c7_hot, c7_warm, c7_fresh],
       corridors = [\<lparr> corridorId = ''corridor_room_0000007a_room_0000007b'',
                      fromRoom = ''room_0000007a'', toRoom = ''room_0000007b'',
                      corridorSimilarity = 0.97, corridorWidth = 3.91, corridorLength = 2,
                      corridorDecay = 0 \<rparr>],
       artifacts = [], entities = [], events = [], memory = None, stats = None \<rparr>"


text \<open>
  Three rooms for corridor generation: two of topic \<open>tech\<close> and one of topic \<open>politics\<close>
  that no threshold connects.  \<open>revShuffle\<close> is one possible outcome of the random sort.
\<close>

definition c5_rooms :: "room list" where
  "c5_rooms = [c4_roomA, c4_roomB, c1_room]"

definition revShuffle :: "nat \<Rightarrow> nat list \<Rightarrow> nat list" where
  "revShuffle k xs = rev xs"

text \<open>
  An inhabitant of topic \<open>tech\<close> assigned to a room in an earlier cycle, and a world whose
  only room has topic \<open>culture\<close>.
\<close>

definition c8_entity :: entity where
  "c8_entity =
     \<lparr> entityId = ''entity__nex'', entityName = ''@nex'', entityType = Person,
       topics = [''tech''], appearances = 3, firstSeen = 0, lastSeen = 0, strength = 0.45,
       currentRoom = Some ''room_0000dead'', recentContexts = [], history = [] \<rparr>"

definition c8_rooms :: "room list" where
  "c8_rooms = [generatedRoom ''room_000000c8'' ''culture'' 0 0 0 unitDimensions noFragments]"

text \<open>
  A first cycle: an empty world, and one observation from which the room generator makes
  one room of topic \<open>tech\<close>.
\<close>

definition emptyState :: "unit worldState" where
  "emptyState =
     \<lparr> version = 2, stateCreatedAt = 0, lastUpdate = None, observationCycles = 0,
       rooms = [], corridors = [], artifacts = [], entities = [], events = [],
       memory = None, stats = None \<rparr>"

definition c2_world :: "unit world" where
  "c2_world = \<lparr> wState = emptyState, wTracker = [] \<rparr>"

definition c2_env :: "(unit, unit) env" where
  "c2_env =
     \<lparr> envNow = 1000,
       generateRooms = (\<lambda>obs. [c1_room]),
       updateEntities = (\<lambda>obs ents. ents),
       envScramble = (\<lambda>s e. s), envDimColor = (\<lambda>c e. c),
       warpDraw = (\<lambda>k. 1 / 2), pruneDraw = (\<lambda>k. 0),
       generateCommentary = (\<lambda>room. ''i just notice.''),
       wanderDraw = (\<lambda>k. 0), envShuffle = revShuffle,
       layoutPosition = (\<lambda>rs cs k. (0, 0)),
       memoryUpdate = (\<lambda>st. ()) \<rparr>"

section \<open>Properties of similarity\<close>

lemma similarity_arith_upper:
  fixes s v :: real
  assumes "0 \<le> s" "0 \<le> v"
  shows "(if c then 0 + 0.5 else 0) + (1 - s) * 0.3 + max 0 (1 - v / 5) * 0.2 \<le> 1"
proof -
  have "(1 - s) * 0.3 \<le> 0.3" using assms by simp
  moreover have "max 0 (1 - v / 5) * 0.2 \<le> 0.2" using assms by (simp add: max_def)
  moreover have "(if c then 0 + 0.5 else (0::real)) \<le> 0.5" by simp
  ultimately show ?thesis by linarith
qed

lemma similarity_arith_lower:
  fixes s v :: real
  assumes "s \<le> 2"
  shows "- (3 / 10) \<le> (if c then 0 + 0.5 else 0) + (1 - s) * 0.3 + max 0 (1 - v / 5) * 0.2"
proof -
  have "0 \<le> max 0 (1 - v / 5) * 0.2" by simp
  moreover have "- (3 / 10) \<le> (1 - s) * 0.3" using assms by simp
  moreover have "0 \<le> (if c then 0 + 0.5 else (0::real))" by simp
  ultimately show ?thesis by linarith
qed

text \<open>The upper bound 1 holds for all rooms.\<close>

lemma similarity_le_1: "similarity a b \<le> 1"
  unfolding similarity_def Let_def by (rule similarity_arith_upper) simp_all

text \<open>With sentiments in \<open>[-1, 1]\<close> the value is at least \<open>-0.3\<close>, and no better bound holds.\<close>

lemma similarity_lower:
  assumes "\<bar>sentiment a\<bar> \<le> 1" "\<bar>sentiment b\<bar> \<le> 1"
  shows "- (3 / 10) \<le> similarity a b"
proof -
  have "\<bar>sentiment a - sentiment b\<bar> \<le> 2" using assms by linarith
  then show ?thesis unfolding similarity_def Let_def by (rule similarity_arith_lower)
qed

text \<open>The value is not negative when the sentiments differ by at most 1.\<close>

lemma similarity_nonneg:
  assumes "\<bar>sentiment a - sentiment b\<bar> \<le> 1"
  shows "0 \<le> similarity a b"
proof -
  have "0 \<le> (1 - \<bar>sentiment a - sentiment b\<bar>) * 0.3" using assms by simp
  moreover have "0 \<le> max 0 (1 - \<bar>virality a - virality b\<bar> / 5) * 0.2" by simp
  moreover have "0 \<le> (if topic a = topic b then 0 + 0.5 else (0::real))" by simp
  ultimately show ?thesis unfolding similarity_def Let_def by linarith
qed

text \<open>
  Claim C4: for all rooms with sentiments in \<open>[-1, 1]\<close> and viralities \<open>\<ge> 0\<close> the value of
  \<open>similarity(a, b)\<close> lies in \<open>[0, 1]\<close>.  The code leaves the interval: two rooms of
  different topics, sentiments \<open>1\<close> and \<open>-1\<close>, viralities \<open>0\<close> and \<open>5\<close> have similarity
  \<open>-0.3\<close>, although the function's own comment announces a value in \<open>0-1\<close>.
\<close>

theorem similarity_below_zero:
  "\<bar>sentiment c4_roomA\<bar> \<le> 1 \<and> \<bar>sentiment c4_roomB\<bar> \<le> 1 \<and>
   0 \<le> virality c4_roomA \<and> 0 \<le> virality c4_roomB \<and>
   similarity c4_roomA c4_roomB = - (3 / 10)"
  by (simp add: similarity_def c4_roomA_def c4_roomB_def generatedRoom_def)

section \<open>Properties of the decay engine\<close>

lemma exp_neg_693_lower: "(50007 / 100000 :: real) \<le> exp (- 0.693)"
proof -
  obtain t :: real where
    e: "exp (- 0.693 :: real) =
          (\<Sum>m<8. ((- 0.693) ^ m) / fact m) + (exp t / fact 8) * (- 0.693) ^ 8"
    using Maclaurin_exp_le [of "- 0.693" 8] by blast
  have "0 \<le> (exp t / fact 8) * (- 0.693 :: real) ^ 8" by simp
  then have "(\<Sum>m<8. ((- 0.693 :: real) ^ m) / fact m) \<le> exp (- 0.693)"
    using e by linarith
  moreover have "(50007 / 100000 :: real) \<le> (\<Sum>m<8. ((- 0.693) ^ m) / fact m)"
    by (simp add: eval_nat_numeral fact_numeral)
  ultimately show ?thesis by linarith
qed

lemma exp_neg_693_upper: "exp (- 0.693) \<le> (50008 / 100000 :: real)"
proof -
  obtain t :: real where
    e: "exp (- 0.693 :: real) =
          (\<Sum>m<9. ((- 0.693) ^ m) / fact m) + (exp t / fact 9) * (- 0.693) ^ 9"
    using Maclaurin_exp_le [of "- 0.693" 9] by blast
  have "(- 0.693 :: real) ^ 9 \<le> 0" by simp
  then have "(exp t / fact 9) * (- 0.693 :: real) ^ 9 \<le> 0"
    by (intro mult_nonneg_nonpos) simp_all
  then have "exp (- 0.693) \<le> (\<Sum>m<9. ((- 0.693 :: real) ^ m) / fact m)"
    using e by linarith
  moreover have "(\<Sum>m<9. ((- 0.693) ^ m) / fact m) \<le> (50008 / 100000 :: real)"
    by (simp add: eval_nat_numeral fact_numeral)
  ultimately show ?thesis by linarith
qed

lemma score_tickRoom [simp]: "score (entropy (tickRoom now room)) = decayScore now room"
  by (simp add: tickRoom_def)

text \<open>
  \<open>tick\<close> sorts the rooms, each after the write of its score, into its three arrays.
\<close>

lemma tickStep_eq:
  "tickStep now res room =
     \<lparr> active = active res @ filter (\<lambda>r. score (entropy r) < 0.7) [tickRoom now room],
       decayed = decayed res @
         filter (\<lambda>r. 0.7 \<le> score (entropy r) \<and> score (entropy r) < 1) [tickRoom now room],
       collapsed = collapsed res @ filter (\<lambda>r. 1 \<le> score (entropy r)) [tickRoom now room] \<rparr>"
  by (simp add: tickStep_def Let_def)

lemma tick_foldl:
  "foldl (tickStep now) res rs =
     \<lparr> active = active res @ filter (\<lambda>r. score (entropy r) < 0.7) (map (tickRoom now) rs),
       decayed = decayed res @
         filter (\<lambda>r. 0.7 \<le> score (entropy r) \<and> score (entropy r) < 1) (map (tickRoom now) rs),
       collapsed = collapsed res @ filter (\<lambda>r. 1 \<le> score (entropy r)) (map (tickRoom now) rs) \<rparr>"
proof (induction rs arbitrary: res)
  case Nil
  then show ?case by simp
next
  case (Cons r rs)
  show ?case unfolding foldl_Cons Cons.IH by (simp add: tickStep_eq)
qed

lemma tick_partition:
  "active (tick rs now) = filter (\<lambda>r. score (entropy r) < 0.7) (map (tickRoom now) rs)"
  "decayed (tick rs now) =
     filter (\<lambda>r. 0.7 \<le> score (entropy r) \<and> score (entropy r) < 1) (map (tickRoom now) rs)"
  "collapsed (tick rs now) = filter (\<lambda>r. 1 \<le> score (entropy r)) (map (tickRoom now) rs)"
  by (simp_all add: tick_def tick_foldl)

lemma decayScore_one_half_life:
  assumes "halfLife (entropy room) \<noteq> 0"
    and "(now - createdAt (entropy room)) / 1000 = halfLife (entropy room)"
  shows "decayScore now room = 1 - exp (- 0.693)"
proof -
  have "- 0.693 * ((now - createdAt (entropy room)) / 1000) / halfLife (entropy room) = - 0.693"
    using assms by simp
  moreover have "min 1 (1 - exp (- 0.693 :: real)) = 1 - exp (- 0.693)"
    by (simp add: min_def)
  ultimately show ?thesis by (simp add: decayScore_def Let_def)
qed

lemma decayScore_mono:
  assumes "0 < halfLife (entropy room)" and "now1 \<le> now2"
  shows "decayScore now1 room \<le> decayScore now2 room"
proof -
  define H where "H = halfLife (entropy room)"
  define c where "c = createdAt (entropy room)"
  have "(now1 - c) / 1000 \<le> (now2 - c) / 1000" using assms(2) by simp
  then have "0.693 * ((now1 - c) / 1000) / H \<le> 0.693 * ((now2 - c) / 1000) / H"
    using assms(1) unfolding H_def by (intro divide_right_mono mult_left_mono) simp_all
  then have "exp (- 0.693 * ((now2 - c) / 1000) / H) \<le> exp (- 0.693 * ((now1 - c) / 1000) / H)"
    by simp
  then show ?thesis
    unfolding decayScore_def Let_def H_def c_def by (simp add: min_def)
qed

lemma decayScore_le_1: "decayScore now room \<le> 1"
  by (simp add: decayScore_def Let_def)

lemma decayScore_nonneg:
  assumes "0 < halfLife (entropy room)" and "createdAt (entropy room) \<le> now"
  shows "0 \<le> decayScore now room"
proof -
  have "0 \<le> 0.693 * ((now - createdAt (entropy room)) / 1000) / halfLife (entropy room)"
    using assms by simp
  then have "exp (- 0.693 * ((now - createdAt (entropy room)) / 1000) / halfLife (entropy room)) \<le> 1"
    by simp
  then show ?thesis unfolding decayScore_def Let_def by (simp add: min_def)
qed

text \<open>
  Claim C1, as stated: when the elapsed time equals the half-life \<open>H\<close>, \<open>tick\<close> computes
  the score \<open>0.5\<close> within \<open>1e-9\<close>.  The code multiplies by \<open>0.693\<close>, not by \<open>ln 2\<close>, so
  the score at one half-life is \<open>1 - exp (-0.693)\<close>, about \<open>0.499926\<close>: the claim fails
  for the room below, one hour (its half-life) after its creation.
\<close>

theorem half_life_score_misses_tolerance:
  "(3600000 - createdAt (entropy c1_room)) / 1000 = halfLife (entropy c1_room) \<and>
   \<not> \<bar>score (entropy (tickRoom 3600000 c1_room)) - 0.5\<bar> \<le> 1 / 10 ^ 9"
proof -
  have h: "halfLife (entropy c1_room) = 3600" "createdAt (entropy c1_room) = 0"
    by (simp_all add: c1_room_def generatedRoom_def)
  have "decayScore 3600000 c1_room = 1 - exp (- 0.693)"
    by (rule decayScore_one_half_life) (simp_all add: h)
  then show ?thesis using exp_neg_693_lower by (simp add: h)
qed

text \<open>
  Claim C1, amended: for a room with half-life \<open>H > 0\<close>, when the elapsed time (in
  seconds) equals \<open>H\<close>, \<open>tick\<close> writes the score \<open>1 - exp (-0.693)\<close>, which is \<open>0.5\<close>
  within a tolerance of \<open>1e-4\<close>.
\<close>

theorem half_life_score_near_half:
  assumes "0 < halfLife (entropy room)"
    and "(now - createdAt (entropy room)) / 1000 = halfLife (entropy room)"
  shows "score (entropy (tickRoom now room)) = 1 - exp (- 0.693) \<and>
         \<bar>score (entropy (tickRoom now room)) - 0.5\<bar> \<le> 1 / 10 ^ 4"
proof -
  have "decayScore now room = 1 - exp (- 0.693)"
    using assms by (intro decayScore_one_half_life) simp_all
  then show ?thesis using exp_neg_693_lower exp_neg_693_upper by simp
qed

theorem half_life_score_near_half_witness:
  "0 < halfLife (entropy c1_room) \<and>
   (3600000 - createdAt (entropy c1_room)) / 1000 = halfLife (entropy c1_room) \<and>
   \<bar>score (entropy (tickRoom 3600000 c1_room)) - 0.5\<bar> \<le> 1 / 10 ^ 4"
proof -
  have h: "0 < halfLife (entropy c1_room)"
    "(3600000 - createdAt (entropy c1_room)) / 1000 = halfLife (entropy c1_room)"
    by (simp_all add: c1_room_def generatedRoom_def)
  show ?thesis using h half_life_score_near_half [OF h] by blast
qed

text \<open>
  Claim C3, as stated: for all times \<open>now1 \<le> now2\<close> the score written at \<open>now2\<close> is at
  least the score written at \<open>now1\<close>, and the written score is always in \<open>[0, 1]\<close>.
  \<open>tick\<close> clamps the score from above only (\<open>Math.min(1, decay)\<close>): for a time before the
  room's creation the written score is negative.
\<close>

theorem tick_score_negative_before_creation:
  "score (entropy (tickRoom 0 c3_room)) < 0"
proof -
  have "decayScore 0 c3_room = min 1 (1 - exp (0.693 / 3600))"
    by (simp add: decayScore_def c3_room_def generatedRoom_def)
  moreover have "1 < exp (0.693 / 3600 :: real)" by simp
  ultimately show ?thesis by (simp add: min_def)
qed

text \<open>
  Claim C3, amended: for a room with half-life \<open>> 0\<close> and all times \<open>now1 \<le> now2\<close>, the
  score written by \<open>tick\<close> at \<open>now2\<close> is at least the score written at \<open>now1\<close>, and a
  written score is at most 1; it is at least 0 when the time is not before the room's
  creation.
\<close>

theorem tick_score_monotone_bounded:
  assumes "0 < halfLife (entropy room)" and "now1 \<le> now2"
  shows "score (entropy (tickRoom now1 room)) \<le> score (entropy (tickRoom now2 room)) \<and>
         score (entropy (tickRoom now1 room)) \<le> 1 \<and>
         score (entropy (tickRoom now2 room)) \<le> 1 \<and>
         (createdAt (entropy room) \<le> now1 \<longrightarrow>
            0 \<le> score (entropy (tickRoom now1 room)) \<and>
            0 \<le> score (entropy (tickRoom now2 room)))"
  using assms decayScore_mono [of room now1 now2] decayScore_le_1
    decayScore_nonneg [of room now1] decayScore_nonneg [of room now2]
  by simp

theorem tick_score_monotone_bounded_witness:
  "0 < halfLife (entropy c3_room) \<and> (1000::real) \<le> 2000 \<and>
   createdAt (entropy c3_room) \<le> 1000 \<and>
   score (entropy (tickRoom 1000 c3_room)) \<le> score (entropy (tickRoom 2000 c3_room)) \<and>
   0 \<le> score (entropy (tickRoom 1000 c3_room)) \<and> score (entropy (tickRoom 2000 c3_room)) \<le> 1"
proof -
  have h: "0 < halfLife (entropy c3_room)" "(1000::real) \<le> 2000"
    and c: "createdAt (entropy c3_room) \<le> 1000"
    by (simp_all add: c3_room_def generatedRoom_def)
  show ?thesis using h c tick_score_monotone_bounded [OF h] by blast
qed


section \<open>Rounding to the nearest double\<close>






























































section \<open>Properties of the prune engine\<close>

lemma map_update_same: "f y = f (xs ! i) \<Longrightarrow> map f (xs[i := y]) = map f xs"
  by (induction xs arbitrary: i) (auto split: nat.splits)

lemma dropTraces_pushTrace [simp]: "dropTraces (pushTrace t r) = dropTraces r"
  by (simp add: dropTraces_def pushTrace_def Let_def)

lemma classifyStep_eq:
  "classifyStep c st (p, k) r =
     (if prunable c st r then (p @ [r], k) else (p, k @ [boosted c st r]))"
  by (simp add: classifyStep_def prunable_def boosted_def Let_def)

lemma classify_foldl:
  "foldl (classifyStep c st) (p, k) rs =
     (p @ filter (prunable c st) rs, k @ map (boosted c st) (filter (\<lambda>r. \<not> prunable c st r) rs))"
proof (induction rs arbitrary: p k)
  case Nil
  then show ?case by simp
next
  case (Cons r rs)
  show ?case
    by (simp add: Cons.IH classifyStep_eq)
qed

lemma traceNeighbor_skeleton:
  "map dropTraces (traceNeighbor t ks n) = map dropTraces ks"
  by (simp add: traceNeighbor_def map_update_same split: option.splits)

lemma traceNeighbors_skeleton:
  "map dropTraces (foldl (traceNeighbor t) ks ns) = map dropTraces ks"
  by (induction ns arbitrary: ks) (simp_all add: traceNeighbor_skeleton)

lemma pruneStep_skeleton:
  "map dropTraces (accKeep (pruneStep now c nb pids acc ru)) = map dropTraces (accKeep acc)"
  by (simp add: pruneStep_def Let_def map_update_same traceNeighbors_skeleton)

lemma pruneSteps_skeleton:
  "map dropTraces (accKeep (foldl (pruneStep now c nb pids) acc rus)) = map dropTraces (accKeep acc)"
  by (induction rus arbitrary: acc) (simp_all add: pruneStep_skeleton)

lemma prune_pruned: "pruned (prune rnd now state st) = filter (prunable (observationCycles state) st) (rooms state)"
  by (simp add: prune_def Let_def classify_foldl)

lemma prune_kept:
  "map dropTraces (kept (prune rnd now state st)) =
     map dropTraces (map (boosted (observationCycles state) st)
        (filter (\<lambda>r. \<not> prunable (observationCycles state) st r) (rooms state)))"
  by (simp add: prune_def Let_def classify_foldl pruneSteps_skeleton)

lemma rid_dropTraces [simp]: "rid (dropTraces r) = rid r"
  by (simp add: dropTraces_def)

lemma rid_boosted [simp]: "rid (boosted c st r) = rid r"
  by (simp add: boosted_def)

lemma mset_map_partition:
  "mset (map f (filter P xs)) + mset (map f (filter (\<lambda>x. \<not> P x) xs)) = mset (map f xs)"
  by (induction xs) simp_all

lemma prune_kept_ids:
  "map rid (kept (prune rnd now state st)) =
     map rid (filter (\<lambda>r. \<not> prunable (observationCycles state) st r) (rooms state))"
proof -
  have "map rid (kept (prune rnd now state st)) =
          map rid (map dropTraces (kept (prune rnd now state st)))"
    by (simp add: comp_def)
  also have "\<dots> = map rid (filter (\<lambda>r. \<not> prunable (observationCycles state) st r) (rooms state))"
    unfolding prune_kept by (simp add: comp_def)
  finally show ?thesis .
qed

lemma prune_kept_member:
  assumes "room \<in> set (rooms state)" and "\<not> prunable (observationCycles state) st room"
  shows "\<exists>k \<in> set (kept (prune rnd now state st)).
           dropTraces k = dropTraces (boosted (observationCycles state) st room)"
proof -
  have "dropTraces (boosted (observationCycles state) st room)
          \<in> set (map dropTraces (kept (prune rnd now state st)))"
    unfolding prune_kept using assms by simp
  then show ?thesis by auto
qed

text \<open>
  Claim C7: for every \<open>prune\<close> call with \<open>staleCycles = 5\<close> and every room of the state,
  with age = current cycle minus \<open>lastRefreshedCycle || _addedCycle || 0\<close>: a room of age
  \<open>\<ge> 5\<close> and score \<open>\<ge> 0.6\<close> is pruned; a room of age \<open>\<ge> 5\<close> and score in
  \<open>[0.4, 0.6)\<close> is kept with its score raised by \<open>0.15\<close>, capped at 1; a room of age
  \<open>< 5\<close> is kept as it is (a kept room differs from the input room in its traces at most);
  and kept and pruned together are exactly the input rooms.
\<close>

theorem prune_stale_rooms:
  fixes state :: "'m worldState"
  assumes "room \<in> set (rooms state)"
  shows
    "(pruneAge (observationCycles state) room \<ge> 5 \<and> score (entropy room) \<ge> 0.6
        \<longrightarrow> room \<in> set (pruned (prune rnd now state 5))) \<and>
     (pruneAge (observationCycles state) room \<ge> 5 \<and>
      0.4 \<le> score (entropy room) \<and> score (entropy room) < 0.6
        \<longrightarrow> room \<notin> set (pruned (prune rnd now state 5)) \<and>
            (\<exists>k \<in> set (kept (prune rnd now state 5)).
               dropTraces k = dropTraces (room\<lparr> entropy := (entropy room)
                 \<lparr> score := min 1 (score (entropy room) + 0.15) \<rparr> \<rparr>))) \<and>
     (pruneAge (observationCycles state) room < 5
        \<longrightarrow> room \<notin> set (pruned (prune rnd now state 5)) \<and>
            (\<exists>k \<in> set (kept (prune rnd now state 5)). dropTraces k = dropTraces room)) \<and>
     mset (map rid (kept (prune rnd now state 5))) + mset (map rid (pruned (prune rnd now state 5)))
       = mset (map rid (rooms state)) \<and>
     length (kept (prune rnd now state 5)) + length (pruned (prune rnd now state 5))
       = length (rooms state)"
proof (intro conjI impI)
  assume "pruneAge (observationCycles state) room \<ge> 5 \<and> score (entropy room) \<ge> 0.6"
  then show "room \<in> set (pruned (prune rnd now state 5))"
    using assms by (simp add: prune_pruned prunable_def)
next
  assume a: "pruneAge (observationCycles state) room \<ge> 5 \<and>
      0.4 \<le> score (entropy room) \<and> score (entropy room) < 0.6"
  then have np: "\<not> prunable (observationCycles state) 5 room" by (simp add: prunable_def)
  then show "room \<notin> set (pruned (prune rnd now state 5))" by (simp add: prune_pruned)
  have "boosted (observationCycles state) 5 room =
          room\<lparr> entropy := (entropy room)\<lparr> score := min 1 (score (entropy room) + 0.15) \<rparr> \<rparr>"
    using a by (simp add: boosted_def)
  then show "\<exists>k \<in> set (kept (prune rnd now state 5)).
               dropTraces k = dropTraces (room\<lparr> entropy := (entropy room)
                 \<lparr> score := min 1 (score (entropy room) + 0.15) \<rparr> \<rparr>)"
    using prune_kept_member [OF assms np, of rnd now] by simp
next
  assume a: "pruneAge (observationCycles state) room < 5"
  then have np: "\<not> prunable (observationCycles state) 5 room" by (simp add: prunable_def)
  then show "room \<notin> set (pruned (prune rnd now state 5))" by (simp add: prune_pruned)
  have "boosted (observationCycles state) 5 room = room" using a by (simp add: boosted_def)
  then show "\<exists>k \<in> set (kept (prune rnd now state 5)). dropTraces k = dropTraces room"
    using prune_kept_member [OF assms np, of rnd now] by simp
next
  show "mset (map rid (kept (prune rnd now state 5))) + mset (map rid (pruned (prune rnd now state 5)))
       = mset (map rid (rooms state))"
    unfolding prune_kept_ids prune_pruned
    using mset_map_partition [of rid "prunable (observationCycles state) 5" "rooms state"]
    by (simp add: add.commute)
  then have "size (mset (map rid (kept (prune rnd now state 5))) +
                   mset (map rid (pruned (prune rnd now state 5))))
               = size (mset (map rid (rooms state)))" by simp
  then show "length (kept (prune rnd now state 5)) + length (pruned (prune rnd now state 5))
       = length (rooms state)" by simp
qed


theorem prune_stale_rooms_witness:
  "c7_hot \<in> set (rooms c7_state) \<and> pruneAge (observationCycles c7_state) c7_hot \<ge> 5 \<and>
   score (entropy c7_hot) \<ge> 0.6 \<and> c7_hot \<in> set (pruned (prune (\<lambda>k. 0) 0 c7_state 5)) \<and>
   c7_warm \<in> set (rooms c7_state) \<and> pruneAge (observationCycles c7_state) c7_warm \<ge> 5 \<and>
   0.4 \<le> score (entropy c7_warm) \<and> score (entropy c7_warm) < 0.6 \<and>
   c7_warm \<notin> set (pruned (prune (\<lambda>k. 0) 0 c7_state 5)) \<and>
   c7_fresh \<in> set (rooms c7_state) \<and> pruneAge (observationCycles c7_state) c7_fresh < 5 \<and>
   c7_fresh \<notin> set (pruned (prune (\<lambda>k. 0) 0 c7_state 5))"
proof -
  have h: "c7_hot \<in> set (rooms c7_state)" "c7_warm \<in> set (rooms c7_state)"
    "c7_fresh \<in> set (rooms c7_state)"
    by (simp_all add: c7_state_def)
  have a: "pruneAge (observationCycles c7_state) c7_hot \<ge> 5 \<and> score (entropy c7_hot) \<ge> 0.6"
    by (simp add: c7_state_def c7_hot_def staleRoom_def generatedRoom_def pruneAge_def
        lastTouched_def)
  have b: "pruneAge (observationCycles c7_state) c7_warm \<ge> 5 \<and>
           0.4 \<le> score (entropy c7_warm) \<and> score (entropy c7_warm) < 0.6"
    by (simp add: c7_state_def c7_warm_def staleRoom_def generatedRoom_def pruneAge_def
        lastTouched_def)
  have c: "pruneAge (observationCycles c7_state) c7_fresh < 5"
    by (simp add: c7_state_def c7_fresh_def staleRoom_def generatedRoom_def pruneAge_def
        lastTouched_def)
  show ?thesis
    using h a b c prune_stale_rooms [OF h(1), of "\<lambda>k. 0" 0]
      prune_stale_rooms [OF h(2), of "\<lambda>k. 0" 0] prune_stale_rooms [OF h(3), of "\<lambda>k. 0" 0]
    by blast
qed

text \<open>Scenario B, run: the first room is pruned, the second gets score \<open>0.65\<close> and one trace.\<close>

lemma scenario_B:
  "map rid (pruned (prune (\<lambda>k. 0) 0 c7_state 5)) = [''room_0000007a''] \<and>
   map (\<lambda>r. (rid r, score (entropy r), length (traces r))) (kept (prune (\<lambda>k. 0) 0 c7_state 5)) =
     [(''room_0000007b'', 13 / 20, 1), (''room_0000007c'', 9 / 10, 0)]"
  by code_simp


section \<open>Properties of wandering\<close>

lemma wanderEntity_no_match:
  assumes "\<forall>r \<in> set rs. topic r \<notin> set (topics entity)"
  shows "wanderEntity now u rs entity = entity"
proof -
  have "filter (\<lambda>r. topic r \<in> set (topics entity)) rs = []"
    using assms by (simp add: filter_empty_conv)
  then show ?thesis by (simp add: wanderEntity_def)
qed

lemma length_wander [simp]: "length (wander now rnd rs ents) = length ents"
  by (simp add: wander_def)

text \<open>
  Claim C8, as stated: if no room of the supplied array has a topic among the inhabitant's
  topics, then after \<open>wander\<close> the inhabitant still exists and its current room is
  \<open>null\<close>.  The source skips such an inhabitant (\<open>continue\<close>) without touching it: one
  that was assigned in an earlier cycle keeps that assignment.
\<close>

theorem wander_keeps_stale_assignment:
  "map topic c8_rooms = [''culture''] \<and> topics c8_entity = [''tech''] \<and>
   map currentRoom (wander 0 (\<lambda>k. 0) c8_rooms [c8_entity]) = [Some ''room_0000dead'']"
  by (simp add: wander_def wanderEntity_def c8_rooms_def c8_entity_def generatedRoom_def)

text \<open>
  Claim C8, amended: if no room of the supplied array has a topic among the inhabitant's
  topics, then after \<open>wander\<close> the inhabitant still exists and is exactly as before the
  call; its current room is what it was (\<open>null\<close> only if it was \<open>null\<close> before).
\<close>

theorem wander_no_match_unchanged:
  assumes "k < length ents"
    and "\<forall>r \<in> set rs. topic r \<notin> set (topics (ents ! k))"
  shows "length (wander now rnd rs ents) = length ents \<and>
         wander now rnd rs ents ! k = ents ! k \<and>
         currentRoom (wander now rnd rs ents ! k) = currentRoom (ents ! k)"
  using assms by (simp add: wander_def wanderEntity_no_match)

theorem wander_no_match_unchanged_witness:
  "0 < length [c8_entity] \<and> list_all (\<lambda>r. topic r \<notin> set (topics ([c8_entity] ! 0))) c8_rooms \<and>
   wander 0 (\<lambda>k. 0) c8_rooms [c8_entity] ! 0 = c8_entity"
proof -
  have h: "0 < length [c8_entity]"
    "\<forall>r \<in> set c8_rooms. topic r \<notin> set (topics ([c8_entity] ! 0))"
    by (simp_all add: c8_rooms_def c8_entity_def generatedRoom_def)
  have "list_all (\<lambda>r. topic r \<notin> set (topics ([c8_entity] ! 0))) c8_rooms"
    using h(2) by (simp add: list_all_iff)
  moreover have "wander 0 (\<lambda>k. 0) c8_rooms [c8_entity] ! 0 = [c8_entity] ! 0"
    using wander_no_match_unchanged [OF h, of 0 "\<lambda>k. 0"] by blast
  ultimately show ?thesis by simp
qed

section \<open>Properties of corridor generation\<close>

lemma topoReach_trans:
  assumes "topoReach n s s'" and "topoReach n s' s''"
  shows "topoReach n s s''"
  using assms(2,1)
  by (induction rule: topoReach.induct) (auto intro: topoReach.intros)

lemma foldl_reach:
  assumes "\<And>x s'. x \<in> set xs \<Longrightarrow> topoReach n s s' \<Longrightarrow> topoReach n s (f s' x)"
    and "topoReach n s s0"
  shows "topoReach n s (foldl f s0 xs)"
  using assms
proof (induction xs arbitrary: s0)
  case Nil
  then show ?case by simp
next
  case (Cons x xs)
  have "topoReach n s (f s0 x)" using Cons.prems by simp
  then show ?case using Cons.IH Cons.prems(1) by simp
qed

subsection \<open>addCorridor\<close>

lemma addCorridor_length [simp]: "length (store (addCorridor a b sim s)) = length (store s)"
  by (simp add: addCorridor_def Let_def)

lemma addCorridor_byTopic [simp]: "byTopic (addCorridor a b sim s) = byTopic s"
  by (simp add: addCorridor_def Let_def)

lemma dropConnections_push [simp]: "dropConnections (pushConnection i r) = dropConnections r"
  by (simp add: dropConnections_def pushConnection_def)

lemma addCorridor_static:
  "map dropConnections (store (addCorridor a b sim s)) = map dropConnections (store s)"
  by (simp add: addCorridor_def Let_def map_update_same)

lemma push_update_connections:
  "connections ((xs[a := pushConnection x (xs ! a)]) ! i) =
     connections (xs ! i) @ (if i = a \<and> a < length xs then [x] else [])"
proof (cases "a < length xs")
  case True
  then show ?thesis by (auto simp: nth_list_update pushConnection_def)
next
  case False
  then have "xs[a := pushConnection x (xs ! a)] = xs" by (intro list_update_beyond) simp
  then show ?thesis using False by simp
qed

lemma addCorridor_connections:
  "connections (store (addCorridor a b sim s) ! i) =
     connections (store s ! i) @
       (if corridorKey (rid (store s ! a)) (rid (store s ! b)) \<in> corridorSet s then []
        else (if i = a \<and> a < length (store s) then [rid (store s ! b)] else []) @
             (if i = b \<and> b < length (store s) then [rid (store s ! a)] else []))"
proof (cases "corridorKey (rid (store s ! a)) (rid (store s ! b)) \<in> corridorSet s")
  case True
  then show ?thesis by (simp add: addCorridor_def Let_def)
next
  case False
  define st1 where "st1 = (store s)[a := pushConnection (rid (store s ! b)) (store s ! a)]"
  have st: "store (addCorridor a b sim s) = st1[b := pushConnection (rid (store s ! a)) (st1 ! b)]"
    using False by (simp add: addCorridor_def Let_def st1_def)
  have l: "length st1 = length (store s)" by (simp add: st1_def)
  have "connections (store (addCorridor a b sim s) ! i) =
          connections (st1 ! i) @ (if i = b \<and> b < length st1 then [rid (store s ! a)] else [])"
    unfolding st by (rule push_update_connections)
  also have "connections (st1 ! i) =
          connections (store s ! i) @ (if i = a \<and> a < length (store s) then [rid (store s ! b)] else [])"
    unfolding st1_def by (rule push_update_connections)
  finally show ?thesis using False by (simp add: l)
qed

lemma addCorridor_connections_grow:
  "\<exists>ys. connections (store (addCorridor a b sim s) ! i) = connections (store s ! i) @ ys"
  unfolding addCorridor_connections by blast

lemma addCorridor_new_connections:
  assumes "a < length (store s)" "b < length (store s)"
    and "corridorKey (rid (store s ! a)) (rid (store s ! b)) \<notin> corridorSet s"
  shows "rid (store s ! b) \<in> set (connections (store (addCorridor a b sim s) ! a)) \<and>
         rid (store s ! a) \<in> set (connections (store (addCorridor a b sim s) ! b))"
  unfolding addCorridor_connections using assms by simp

subsection \<open>Facts that hold along every run\<close>

lemma reach_length: "topoReach n s s' \<Longrightarrow> length (store s') = length (store s)"
  by (induction rule: topoReach.induct) simp_all

lemma reach_static:
  "topoReach n s s' \<Longrightarrow> map dropConnections (store s') = map dropConnections (store s)"
  by (induction rule: topoReach.induct) (simp_all add: addCorridor_static)

lemma reach_grow:
  "topoReach n s s' \<Longrightarrow> \<exists>ys. connections (store s' ! i) = connections (store s ! i) @ ys"
proof (induction rule: topoReach.induct)
  case reachRefl
  then show ?case by simp
next
  case (reachAdd s' a b sim)
  then obtain ys where "connections (store s' ! i) = connections (store s ! i) @ ys" by blast
  moreover obtain zs where
    "connections (store (addCorridor a b sim s') ! i) = connections (store s' ! i) @ zs"
    using addCorridor_connections_grow by blast
  ultimately show ?case by simp
next
  case (reachSort s' g' t d)
  then show ?case by simp
qed

lemma setGroup_keys [simp]: "map fst (setGroup t g m) = map fst m"
  by (simp add: setGroup_def comp_def)

lemma reach_keys: "topoReach n s s' \<Longrightarrow> map fst (byTopic s') = map fst (byTopic s)"
  by (induction rule: topoReach.induct) simp_all

lemma setGroup_member:
  "tg \<in> set (setGroup t g m) \<Longrightarrow> tg \<in> set m \<or> (tg = (t, g) \<and> t \<in> fst ` set m)"
  by (auto simp: setGroup_def)

lemma getGroup_member:
  "getGroup s t \<noteq> [] \<Longrightarrow> (t, getGroup s t) \<in> set (byTopic s)"
  by (auto simp: getGroup_def split: option.splits dest: map_of_SomeD)

lemma wf_getGroup:
  assumes "wfTopo n s"
  shows "distinct (getGroup s t) \<and> (\<forall>i \<in> set (getGroup s t). i < n)"
proof (cases "getGroup s t = []")
  case True
  then show ?thesis by simp
next
  case False
  then have "(t, getGroup s t) \<in> set (byTopic s)" by (rule getGroup_member)
  then show ?thesis using assms unfolding wfTopo_def by fastforce
qed

lemma wf_sort:
  assumes "wfTopo n s" and "mset g' = mset (getGroup s t)"
  shows "wfTopo n (s\<lparr> byTopic := setGroup t g' (byTopic s), draws := d \<rparr>)"
proof -
  have g: "distinct g' \<and> (\<forall>i \<in> set g'. i < n)"
    using wf_getGroup [OF assms(1), of t] assms(2)
    by (metis mset_eq_imp_distinct_iff mset_eq_setD)
  have l: "length (store (s\<lparr> byTopic := setGroup t g' (byTopic s), draws := d \<rparr>)) = n"
    using assms(1) by (simp add: wfTopo_def)
  have "distinct (snd tg) \<and> (\<forall>i \<in> set (snd tg). i < n)"
    if "tg \<in> set (byTopic (s\<lparr> byTopic := setGroup t g' (byTopic s), draws := d \<rparr>))" for tg
  proof -
    have "tg \<in> set (byTopic s) \<or> tg = (t, g')"
      using that setGroup_member [of tg t g' "byTopic s"] by auto
    then show ?thesis using assms(1) g unfolding wfTopo_def by auto
  qed
  then show ?thesis using l unfolding wfTopo_def by blast
qed

lemma wf_add: "wfTopo n s \<Longrightarrow> wfTopo n (addCorridor a b sim s)"
  by (simp add: wfTopo_def)

lemma reach_wf: "topoReach n s s' \<Longrightarrow> wfTopo n s \<Longrightarrow> wfTopo n s'"
  by (induction rule: topoReach.induct) (simp_all add: wf_add wf_sort)

subsection \<open>Every phase is a run of elementary steps\<close>

lemma intraRoom_reach:
  assumes "topoReach n s0 s" and "\<forall>j \<in> set grp. j < n" and "i < length grp"
  shows "topoReach n s0 (intraRoom threshold grp i s)"
proof -
  define scored where
    "scored = map (\<lambda>j. (grp ! j, similarity (store s ! (grp ! i)) (store s ! (grp ! j))))
                [i + 1..<length grp]"
  define sorted where "sorted = sort_key (\<lambda>p. - snd p) scored"
  have "fst p < n" if "p \<in> set scored" for p
    using that assms(2) unfolding scored_def by auto
  then have idx: "fst (sorted ! k) < n" if "k < length sorted" for k
    using that nth_mem [of k sorted] unfolding sorted_def by simp
  have gi: "grp ! i < n" using assms(2,3) by simp
  have "topoReach n s0
          (foldl (\<lambda>s' k. if snd (sorted ! k) \<ge> threshold
                          then addCorridor (grp ! i) (fst (sorted ! k)) (snd (sorted ! k)) s'
                          else s')
             s [0..<min 5 (length sorted)])"
  proof (rule foldl_reach)
    show "topoReach n s0 s" by (rule assms(1))
  next
    fix k s' assume k: "k \<in> set [0..<min 5 (length sorted)]" and r: "topoReach n s0 s'"
    then have "k < length sorted" by simp
    then show "topoReach n s0
                 (if snd (sorted ! k) \<ge> threshold
                  then addCorridor (grp ! i) (fst (sorted ! k)) (snd (sorted ! k)) s' else s')"
      using r gi idx by (simp add: reachAdd)
  qed
  then show ?thesis unfolding intraRoom_def Let_def scored_def sorted_def .
qed

lemma intraGroup_reach:
  assumes "topoReach n s0 s" and "\<forall>j \<in> set grp. j < n"
  shows "topoReach n s0 (intraGroup threshold grp s)"
  unfolding intraGroup_def
  by (rule foldl_reach) (simp_all add: intraRoom_reach assms)

lemma intraTopic_reach:
  assumes "topoReach n s0 s" and "wfTopo n s"
  shows "topoReach n s0 (intraTopic threshold s)"
  unfolding intraTopic_def
proof (rule foldl_reach)
  show "topoReach n s0 s" by (rule assms(1))
next
  fix tg s' assume "tg \<in> set (byTopic s)" and r: "topoReach n s0 s'"
  then have "\<forall>j \<in> set (snd tg). j < n" using assms(2) unfolding wfTopo_def by blast
  then show "topoReach n s0 (intraGroup threshold (snd tg) s')" using r by (rule intraGroup_reach [rotated])
qed

lemma crossSample_reach:
  assumes perm: "\<And>k xs. mset (shuffle k xs) = mset xs"
    and "topoReach n s0 s" and "wfTopo n s"
  shows "topoReach n s0 (snd (crossSample shuffle t s)) \<and>
         (\<forall>i \<in> set (fst (crossSample shuffle t s)). i < n)"
proof (cases "length (getGroup s t) \<le> 5")
  case True
  then show ?thesis
    using assms(2) wf_getGroup [OF assms(3), of t] by (simp add: crossSample_def Let_def)
next
  case False
  define sorted where "sorted = shuffle (draws s) (getGroup s t)"
  have m: "mset sorted = mset (getGroup s t)" unfolding sorted_def by (rule perm)
  then have "set sorted = set (getGroup s t)" by (rule mset_eq_setD)
  then have "\<forall>i \<in> set (take 5 sorted). i < n"
    using wf_getGroup [OF assms(3), of t] by (auto dest: in_set_takeD)
  moreover have "topoReach n s0 (s\<lparr> byTopic := setGroup t sorted (byTopic s), draws := Suc (draws s) \<rparr>)"
    using assms(2) m by (rule reachSort)
  ultimately show ?thesis
    using False by (simp add: crossSample_def Let_def sorted_def)
qed

lemma crossTopics_reach:
  assumes perm: "\<And>k xs. mset (shuffle k xs) = mset xs"
    and "wfTopo n s0" and "room < n"
  shows "topoReach n s0 s \<Longrightarrow> topoReach n s0 (crossTopics shuffle threshold tp room tps cc s)"
proof (induction tps arbitrary: cc s)
  case Nil
  then show ?case by simp
next
  case (Cons otherTopic rest)
  show ?case
  proof (cases "otherTopic = tp \<or> cc \<ge> 3")
    case True
    then show ?thesis using Cons.prems by simp
  next
    case False
    define smp where "smp = crossSample shuffle otherTopic s"
    have wf: "wfTopo n s" using Cons.prems assms(2) by (rule reach_wf)
    have r1: "topoReach n s0 (snd smp)" and idx: "\<forall>i \<in> set (fst smp). i < n"
      using crossSample_reach [OF perm Cons.prems wf, where t = otherTopic] unfolding smp_def by simp_all
    show ?thesis
    proof (cases "find (\<lambda>other. similarity (store (snd smp) ! room) (store (snd smp) ! other) \<ge> threshold)
                    (fst smp)")
      case None
      then show ?thesis
        using False Cons.IH [OF r1] by (simp add: Let_def smp_def)
    next
      case (Some other)
      then have "other \<in> set (fst smp)" by (auto simp: find_Some_iff)
      then have "other < n" using idx by simp
      then have "topoReach n s0 (addCorridor room other
                   (similarity (store (snd smp) ! room) (store (snd smp) ! other)) (snd smp))"
        using r1 assms(3) by (simp add: reachAdd)
      then show ?thesis
        using False Some Cons.IH by (simp add: Let_def smp_def)
    qed
  qed
qed

lemma crossRoom_reach:
  assumes perm: "\<And>k xs. mset (shuffle k xs) = mset xs"
    and "wfTopo n s0" and "room < n" and "topoReach n s0 s"
  shows "topoReach n s0 (crossRoom shuffle threshold tp tps s room)"
  unfolding crossRoom_def using assms crossTopics_reach [OF perm assms(2,3,4)] by simp

lemma crossGroup_reach:
  assumes perm: "\<And>k xs. mset (shuffle k xs) = mset xs"
    and "wfTopo n s0" and "topoReach n s0 s" and "gi < length (byTopic s)"
  shows "topoReach n s0 (crossGroup shuffle threshold tps s gi)"
proof -
  have "wfTopo n s" using assms(3,2) by (rule reach_wf)
  then have idx: "\<forall>j \<in> set (snd (byTopic s ! gi)). j < n"
    using assms(4) nth_mem [of gi "byTopic s"] unfolding wfTopo_def by blast
  show ?thesis
    unfolding crossGroup_def Let_def
    by (rule foldl_reach) (use idx assms in \<open>simp_all add: crossRoom_reach\<close>)
qed

lemma crossTopic_reach:
  assumes perm: "\<And>k xs. mset (shuffle k xs) = mset xs"
    and "wfTopo n s0" and "topoReach n s0 s"
  shows "topoReach n s0 (crossTopic shuffle threshold s)"
  unfolding crossTopic_def Let_def
proof (rule foldl_reach)
  show "topoReach n s0 s" by (rule assms(3))
next
  fix gi s' assume g: "gi \<in> set [0..<length (byTopic s)]" and r: "topoReach n s0 s'"
  have "map fst (byTopic s') = map fst (byTopic s)"
    using reach_keys [OF r] reach_keys [OF assms(3)] by simp
  then have "length (byTopic s') = length (byTopic s)" by (metis length_map)
  then have "gi < length (byTopic s')" using g by simp
  then show "topoReach n s0 (crossGroup shuffle threshold (map fst (byTopic s)) s' gi)"
    using perm assms(2) r by (intro crossGroup_reach)
qed

lemma bestCandidate_member_aux:
  "snd (foldl (bestStep st room) best cs) = Some b \<Longrightarrow> snd best = Some b \<or> b \<in> set cs"
proof (induction cs arbitrary: best)
  case Nil
  then show ?case by simp
next
  case (Cons c cs)
  from Cons.IH [of "bestStep st room best c"] Cons.prems
  have "snd (bestStep st room best c) = Some b \<or> b \<in> set cs" by simp
  then show ?case by (auto simp: bestStep_def Let_def split: if_splits)
qed

lemma bestCandidate_member:
  "snd (bestCandidate st room cs) = Some b \<Longrightarrow> b \<in> set cs"
  unfolding bestCandidate_def using bestCandidate_member_aux [of st room "(- 1, None)" cs b] by simp

lemma ensureRoom_candidates:
  assumes "wfTopo n s"
  shows "\<forall>i \<in> set (if length (getGroup s t) > 1 then getGroup s t
                       else [0..<min 50 (length (store s))]). i < n"
  using wf_getGroup [OF assms, of t] assms by (auto simp: wfTopo_def)

lemma ensureRoom_reach:
  assumes "wfTopo n s0" and "topoReach n s0 s" and "room < n"
  shows "topoReach n s0 (ensureRoom s room)"
proof -
  have wf: "wfTopo n s" using assms(2,1) by (rule reach_wf)
  define cands where
    "cands = (if length (getGroup s (topic (store s ! room))) > 1
              then getGroup s (topic (store s ! room))
              else [0..<min 50 (length (store s))])"
  have idx: "\<forall>i \<in> set cands. i < n"
    unfolding cands_def by (rule ensureRoom_candidates [OF wf])
  show ?thesis
  proof (cases "snd (bestCandidate (store s) room cands)")
    case None
    then show ?thesis using assms(2) by (simp add: ensureRoom_def Let_def cands_def)
  next
    case (Some b)
    then have "b < n" using bestCandidate_member idx by blast
    then have "topoReach n s0 (addCorridor room b (fst (bestCandidate (store s) room cands)) s)"
      using assms(2,3) by (simp add: reachAdd)
    then show ?thesis using Some assms(2) by (simp add: ensureRoom_def Let_def cands_def)
  qed
qed

lemma ensureConnectivity_reach:
  assumes "wfTopo n s0" and "topoReach n s0 s"
  shows "topoReach n s0 (ensureConnectivity s)"
proof -
  have "length (store s) = n" using reach_wf [OF assms(2,1)] by (simp add: wfTopo_def)
  then show ?thesis
    unfolding ensureConnectivity_def
    by (intro foldl_reach) (use assms in \<open>simp_all add: ensureRoom_reach\<close>)
qed

lemma groupPush_member:
  "tg \<in> set (groupPush t i m) \<Longrightarrow>
     tg \<in> set m \<or> tg = (t, [i]) \<or> (\<exists>g. (t, g) \<in> set m \<and> tg = (t, g @ [i]))"
  by (induction t i m rule: groupPush.induct) (auto split: if_splits)

lemma groupByTopic_upto:
  "\<forall>tg \<in> set (foldl (\<lambda>m i. groupPush (topic (rs ! i)) i m) [] [0..<k]).
      distinct (snd tg) \<and> (\<forall>i \<in> set (snd tg). i < k)"
proof (induction k)
  case 0
  then show ?case by simp
next
  case (Suc k)
  define m where "m = foldl (\<lambda>m i. groupPush (topic (rs ! i)) i m) [] [0..<k]"
  have ih: "\<forall>tg \<in> set m. distinct (snd tg) \<and> (\<forall>i \<in> set (snd tg). i < k)"
    using Suc.IH unfolding m_def .
  have "distinct (snd tg) \<and> (\<forall>i \<in> set (snd tg). i < Suc k)"
    if "tg \<in> set (groupPush (topic (rs ! k)) k m)" for tg
    using groupPush_member [OF that] ih by fastforce
  then show ?case by (simp add: m_def)
qed

lemma wf_initial: "wfTopo (length rs) (initialTopo rs)"
  unfolding wfTopo_def initialTopo_def groupByTopic_def using groupByTopic_upto [of rs "length rs"]
  by simp

lemma generateCorridors_initial:
  "generateCorridors shuffle rs threshold =
     ensureConnectivity (crossTopic shuffle threshold (intraTopic threshold (initialTopo rs)))"
  by (simp add: generateCorridors_def)

lemma generateCorridors_reach:
  assumes perm: "\<And>k xs. mset (shuffle k xs) = mset xs"
  shows "topoReach (length rs) (initialTopo rs) (generateCorridors shuffle rs threshold)"
  unfolding generateCorridors_initial
  by (intro ensureConnectivity_reach crossTopic_reach intraTopic_reach wf_initial reachRefl perm)

subsection \<open>The edge invariant\<close>

lemma rid_dropConnections [simp]: "rid (dropConnections r) = rid r"
  by (simp add: dropConnections_def)

lemma static_nth:
  assumes "map dropConnections xs = map dropConnections ys" and "i < length ys"
  shows "dropConnections (xs ! i) = dropConnections (ys ! i)"
proof -
  have "length xs = length ys" using assms(1) by (metis length_map)
  then have "map dropConnections xs ! i = dropConnections (xs ! i)"
    and "map dropConnections ys ! i = dropConnections (ys ! i)"
    using assms(2) by simp_all
  then show ?thesis using assms(1) by simp
qed

lemma static_rid:
  assumes "map dropConnections xs = map dropConnections ys" and "i < length ys"
  shows "rid (xs ! i) = rid (ys ! i)"
  using static_nth [OF assms] by (metis rid_dropConnections)

lemma addCorridor_rid:
  "i < length (store s) \<Longrightarrow> rid (store (addCorridor a b sim s) ! i) = rid (store s ! i)"
  using static_rid [OF addCorridor_static] by simp

lemma addCorridor_connections_mono:
  "x \<in> set (connections (store s ! i)) \<Longrightarrow> x \<in> set (connections (store (addCorridor a b sim s) ! i))"
  unfolding addCorridor_connections by simp

lemma addCorridor_rejected:
  "corridorKey (rid (store s ! a)) (rid (store s ! b)) \<in> corridorSet s \<Longrightarrow> addCorridor a b sim s = s"
  by (simp add: addCorridor_def Let_def)

lemma addCorridor_accepted:
  assumes "corridorKey (rid (store s ! a)) (rid (store s ! b)) \<notin> corridorSet s"
  shows "topoCorridors (addCorridor a b sim s) =
           topoCorridors s @ [newCorridor (rid (store s ! a)) (rid (store s ! b)) sim]"
    and "corridorSet (addCorridor a b sim s) =
           insert (corridorKey (rid (store s ! a)) (rid (store s ! b))) (corridorSet s)"
  using assms by (simp_all add: addCorridor_def Let_def)

lemma newCorridor_ends [simp]:
  "fromRoom (newCorridor x y sim) = x" "toRoom (newCorridor x y sim) = y"
  "corridorPairKey (newCorridor x y sim) = corridorKey x y"
  by (simp_all add: newCorridor_def corridorPairKey_def)

lemma edgesOk_add:
  assumes ok: "edgesOk n s" and len: "length (store s) = n" and a: "a < n" and b: "b < n"
  shows "edgesOk n (addCorridor a b sim s)"
proof (cases "corridorKey (rid (store s ! a)) (rid (store s ! b)) \<in> corridorSet s")
  case True
  then show ?thesis using ok by (simp add: addCorridor_rejected)
next
  case False
  define s' where "s' = addCorridor a b sim s"
  define c0 where "c0 = newCorridor (rid (store s ! a)) (rid (store s ! b)) sim"
  have cs: "topoCorridors s' = topoCorridors s @ [c0]"
    and ks: "corridorSet s' = insert (corridorPairKey c0) (corridorSet s)"
    unfolding s'_def c0_def using addCorridor_accepted [OF False] by simp_all
  have fresh: "corridorPairKey c0 \<notin> set (map corridorPairKey (topoCorridors s))"
    using False ok unfolding edgesOk_def c0_def by simp
  have 1: "corridorSet s' = set (map corridorPairKey (topoCorridors s'))"
    using ok unfolding edgesOk_def cs ks by simp
  have 2: "distinct (map corridorPairKey (topoCorridors s'))"
    using ok fresh unfolding edgesOk_def cs by simp
  have ridk: "rid (store s' ! i) = rid (store s ! i)" if "i < n" for i
    unfolding s'_def using that len by (simp add: addCorridor_rid)
  have new: "rid (store s ! b) \<in> set (connections (store s' ! a)) \<and>
             rid (store s ! a) \<in> set (connections (store s' ! b))"
    unfolding s'_def using addCorridor_new_connections [of a s b sim] False a b len by simp
  have 3: "\<exists>a' b'. a' < n \<and> b' < n \<and> fromRoom c = rid (store s' ! a') \<and>
              toRoom c = rid (store s' ! b') \<and>
              toRoom c \<in> set (connections (store s' ! a')) \<and>
              fromRoom c \<in> set (connections (store s' ! b'))"
    if "c \<in> set (topoCorridors s')" for c
  proof (cases "c = c0")
    case True
    then show ?thesis
      using new a b ridk unfolding c0_def by (intro exI [of _ a] exI [of _ b]) simp
  next
    case False
    then have "c \<in> set (topoCorridors s)" using that cs by simp
    then obtain a' b' where
      "a' < n" "b' < n" "fromRoom c = rid (store s ! a')" "toRoom c = rid (store s ! b')"
      "toRoom c \<in> set (connections (store s ! a'))" "fromRoom c \<in> set (connections (store s ! b'))"
      using ok unfolding edgesOk_def by blast
    then show ?thesis
      using ridk addCorridor_connections_mono unfolding s'_def
      by (intro exI [of _ a'] exI [of _ b']) simp
  qed
  show ?thesis
    unfolding edgesOk_def s'_def [symmetric] using 1 2 3 by blast
qed

lemma reach_edgesOk:
  "topoReach n s s' \<Longrightarrow> edgesOk n s \<Longrightarrow> length (store s) = n \<Longrightarrow> edgesOk n s'"
proof (induction rule: topoReach.induct)
  case reachRefl
  then show ?case by simp
next
  case (reachAdd s' a b sim)
  then show ?case by (simp add: edgesOk_add reach_length)
next
  case (reachSort s' g' t d)
  then show ?case by (simp add: edgesOk_def)
qed

lemma edgesOk_initial: "edgesOk n (initialTopo rs)"
  by (simp add: edgesOk_def initialTopo_def)

lemma generateCorridors_edgesOk:
  assumes perm: "\<And>k xs. mset (shuffle k xs) = mset xs"
  shows "edgesOk (length rs) (generateCorridors shuffle rs threshold)"
  using generateCorridors_reach [OF perm] edgesOk_initial
  by (rule reach_edgesOk) (simp add: initialTopo_def)

lemma generateCorridors_static:
  assumes perm: "\<And>k xs. mset (shuffle k xs) = mset xs"
  shows "map dropConnections (store (generateCorridors shuffle rs threshold)) = map dropConnections rs"
  using reach_static [OF generateCorridors_reach [OF perm, where rs = rs and threshold = threshold]]
  by (simp add: initialTopo_def)

lemma corridorKey_commute: "corridorKey x y = corridorKey y x"
  by (auto simp: corridorKey_def)



lemma distinct_rid_index:
  assumes "distinct (map rid rs)" and "a < length rs" and "a' < length rs"
    and "rid (rs ! a) = rid (rs ! a')"
  shows "a = a'"
proof -
  have "map rid rs ! a = map rid rs ! a'" using assms(2,3,4) by simp
  then show ?thesis
    using assms(1,2,3) nth_eq_iff_index_eq [of "map rid rs" a a'] by simp
qed

lemma edgesOk_ends:
  assumes "edgesOk n s" and "c \<in> set (topoCorridors s)"
  shows "\<exists>a b. a < n \<and> b < n \<and> fromRoom c = rid (store s ! a) \<and> toRoom c = rid (store s ! b) \<and>
              toRoom c \<in> set (connections (store s ! a)) \<and>
              fromRoom c \<in> set (connections (store s ! b))"
  using assms by (simp add: edgesOk_def)

lemma edgesOk_distinct: "edgesOk n s \<Longrightarrow> distinct (map corridorPairKey (topoCorridors s))"
  by (simp add: edgesOk_def)

lemma edgesOk_keys: "edgesOk n s \<Longrightarrow> corridorSet s = set (map corridorPairKey (topoCorridors s))"
  by (simp add: edgesOk_def)

text \<open>
  Claim C6: after every run of corridor generation (for every outcome \<open>shuffle\<close> of the
  random sorts), for every recorded corridor \<open>(a, b)\<close> the rooms \<open>a\<close> and \<open>b\<close> are rooms of
  the array, the connections of \<open>a\<close> contain \<open>b\<close> and the connections of \<open>b\<close> contain
  \<open>a\<close>; and no two recorded corridors join the same unordered pair of rooms.  Room ids are
  unique, as the data model says.
\<close>

theorem corridors_symmetric_unique:
  assumes perm: "\<And>k xs. mset (shuffle k xs) = mset xs"
    and ids: "distinct (map rid rs)"
  shows
    "(\<forall>c \<in> set (topoCorridors (generateCorridors shuffle rs threshold)).
        (\<exists>a < length rs. rid (rs ! a) = fromRoom c) \<and>
        (\<exists>b < length rs. rid (rs ! b) = toRoom c) \<and>
        (\<forall>a < length rs. rid (rs ! a) = fromRoom c \<longrightarrow>
           toRoom c \<in> set (connections (store (generateCorridors shuffle rs threshold) ! a))) \<and>
        (\<forall>b < length rs. rid (rs ! b) = toRoom c \<longrightarrow>
           fromRoom c \<in> set (connections (store (generateCorridors shuffle rs threshold) ! b)))) \<and>
     (\<forall>i j. i < j \<and> j < length (topoCorridors (generateCorridors shuffle rs threshold)) \<longrightarrow>
        {fromRoom (topoCorridors (generateCorridors shuffle rs threshold) ! i),
         toRoom (topoCorridors (generateCorridors shuffle rs threshold) ! i)} \<noteq>
        {fromRoom (topoCorridors (generateCorridors shuffle rs threshold) ! j),
         toRoom (topoCorridors (generateCorridors shuffle rs threshold) ! j)})"
proof -
  define out where "out = generateCorridors shuffle rs threshold"
  define n where "n = length rs"
  have ok: "edgesOk n out"
    unfolding out_def n_def by (rule generateCorridors_edgesOk [OF perm])
  have st: "map dropConnections (store out) = map dropConnections rs"
    unfolding out_def by (rule generateCorridors_static [OF perm])
  have ridk: "rid (store out ! i) = rid (rs ! i)" if "i < n" for i
    using static_rid [OF st] that unfolding n_def by simp
  have uniq: "a = a'" if "a < n" "a' < n" "rid (rs ! a) = rid (rs ! a')" for a a'
    by (rule distinct_rid_index [OF ids]) (use that in \<open>simp_all add: n_def\<close>)
  have 1: "(\<exists>a < n. rid (rs ! a) = fromRoom c) \<and> (\<exists>b < n. rid (rs ! b) = toRoom c) \<and>
        (\<forall>a < n. rid (rs ! a) = fromRoom c \<longrightarrow> toRoom c \<in> set (connections (store out ! a))) \<and>
        (\<forall>b < n. rid (rs ! b) = toRoom c \<longrightarrow> fromRoom c \<in> set (connections (store out ! b)))"
    if cin: "c \<in> set (topoCorridors out)" for c
  proof -
    obtain a b where ab: "a < n" "b < n" "fromRoom c = rid (store out ! a)"
      "toRoom c = rid (store out ! b)" "toRoom c \<in> set (connections (store out ! a))"
      "fromRoom c \<in> set (connections (store out ! b))"
      using edgesOk_ends [OF ok cin] by blast
    have fa: "fromRoom c = rid (rs ! a)" and tb: "toRoom c = rid (rs ! b)"
      using ab ridk by simp_all
    have A: "\<exists>a < n. rid (rs ! a) = fromRoom c" using ab(1) fa by auto
    have B: "\<exists>b < n. rid (rs ! b) = toRoom c" using ab(2) tb by auto
    have C: "\<forall>a' < n. rid (rs ! a') = fromRoom c \<longrightarrow>
               toRoom c \<in> set (connections (store out ! a'))"
    proof (intro allI impI)
      fix a' assume "a' < n" "rid (rs ! a') = fromRoom c"
      then have "a' = a" using fa ab(1) uniq [of a' a] by simp
      then show "toRoom c \<in> set (connections (store out ! a'))" using ab(5) by simp
    qed
    have D: "\<forall>b' < n. rid (rs ! b') = toRoom c \<longrightarrow>
               fromRoom c \<in> set (connections (store out ! b'))"
    proof (intro allI impI)
      fix b' assume "b' < n" "rid (rs ! b') = toRoom c"
      then have "b' = b" using tb ab(2) uniq [of b' b] by simp
      then show "fromRoom c \<in> set (connections (store out ! b'))" using ab(6) by simp
    qed
    show ?thesis using A B C D by (intro conjI)
  qed
  have 2: "{fromRoom (topoCorridors out ! i), toRoom (topoCorridors out ! i)} \<noteq>
           {fromRoom (topoCorridors out ! j), toRoom (topoCorridors out ! j)}"
    if "i < j" "j < length (topoCorridors out)" for i j
  proof
    assume eq: "{fromRoom (topoCorridors out ! i), toRoom (topoCorridors out ! i)} =
           {fromRoom (topoCorridors out ! j), toRoom (topoCorridors out ! j)}"
    then have "(fromRoom (topoCorridors out ! i) = fromRoom (topoCorridors out ! j) \<and>
                toRoom (topoCorridors out ! i) = toRoom (topoCorridors out ! j)) \<or>
               (fromRoom (topoCorridors out ! i) = toRoom (topoCorridors out ! j) \<and>
                toRoom (topoCorridors out ! i) = fromRoom (topoCorridors out ! j))"
      by (simp only: doubleton_eq_iff)
    then have k: "corridorPairKey (topoCorridors out ! i) = corridorPairKey (topoCorridors out ! j)"
    proof (elim disjE conjE)
      assume "fromRoom (topoCorridors out ! i) = fromRoom (topoCorridors out ! j)"
        "toRoom (topoCorridors out ! i) = toRoom (topoCorridors out ! j)"
      then show ?thesis by (simp only: corridorPairKey_def)
    next
      assume "fromRoom (topoCorridors out ! i) = toRoom (topoCorridors out ! j)"
        "toRoom (topoCorridors out ! i) = fromRoom (topoCorridors out ! j)"
      then show ?thesis
        unfolding corridorPairKey_def by (simp only: corridorKey_commute [of "toRoom (topoCorridors out ! j)"])
    qed
    have d: "distinct (map corridorPairKey (topoCorridors out))"
      using ok by (rule edgesOk_distinct)
    have li: "i < length (map corridorPairKey (topoCorridors out))"
      and lj: "j < length (map corridorPairKey (topoCorridors out))"
      using that by simp_all
    have "map corridorPairKey (topoCorridors out) ! i = map corridorPairKey (topoCorridors out) ! j"
      using k that by simp
    then have "i = j"
      using nth_eq_iff_index_eq [OF d li lj] by (simp only:)
    then show False using that by simp
  qed
  have P1: "\<forall>c \<in> set (topoCorridors out).
        (\<exists>a < n. rid (rs ! a) = fromRoom c) \<and> (\<exists>b < n. rid (rs ! b) = toRoom c) \<and>
        (\<forall>a < n. rid (rs ! a) = fromRoom c \<longrightarrow> toRoom c \<in> set (connections (store out ! a))) \<and>
        (\<forall>b < n. rid (rs ! b) = toRoom c \<longrightarrow> fromRoom c \<in> set (connections (store out ! b)))"
    using 1 by (intro ballI)
  have P2: "\<forall>i j. i < j \<and> j < length (topoCorridors out) \<longrightarrow>
        {fromRoom (topoCorridors out ! i), toRoom (topoCorridors out ! i)} \<noteq>
        {fromRoom (topoCorridors out ! j), toRoom (topoCorridors out ! j)}"
    using 2 by (intro allI impI) (elim conjE)
  show ?thesis
    unfolding out_def [symmetric] n_def [symmetric] using P1 P2 by (rule conjI)
qed

lemma c5_rooms_facts:
  "1 < length c5_rooms" "distinct (map rid c5_rooms)"
  "\<forall>r \<in> set c5_rooms. CHR ''|'' \<notin> set (rid r)"
  "\<forall>r \<in> set c5_rooms. \<bar>sentiment r\<bar> \<le> 1"
  by (simp_all add: c5_rooms_def c4_roomA_def c4_roomB_def c1_room_def generatedRoom_def)

lemma revShuffle_perm: "mset (revShuffle k xs) = mset xs"
  by (simp add: revShuffle_def)

text \<open>The three rooms, run: the isolated room is attached by the connectivity pass.\<close>

lemma c5_run:
  "map (\<lambda>c. (fromRoom c, toRoom c)) (topoCorridors (generateCorridors revShuffle c5_rooms 0.4)) =
     [(''room_0000000a'', ''room_000000c1''), (''room_0000000b'', ''room_000000c1'')] \<and>
   map connections (store (generateCorridors revShuffle c5_rooms 0.4)) =
     [[''room_000000c1''], [''room_000000c1''], [''room_0000000a'', ''room_0000000b'']]"
  by code_simp

lemma c5_first_corridor:
  "\<exists>c \<in> set (topoCorridors (generateCorridors revShuffle c5_rooms 0.4)).
      fromRoom c = ''room_0000000a'' \<and> toRoom c = ''room_000000c1''"
proof -
  define cs where "cs = topoCorridors (generateCorridors revShuffle c5_rooms 0.4)"
  have "map (\<lambda>c. (fromRoom c, toRoom c)) cs =
     [(''room_0000000a'', ''room_000000c1''), (''room_0000000b'', ''room_000000c1'')]"
    unfolding cs_def using c5_run by (rule conjunct1)
  then obtain c d where "cs = [c, d]" "fromRoom c = ''room_0000000a''" "toRoom c = ''room_000000c1''"
    by (auto simp: map_eq_Cons_conv)
  then show ?thesis unfolding cs_def [symmetric] by simp
qed

theorem corridors_symmetric_unique_witness:
  "(\<forall>k xs. mset (revShuffle k xs) = mset xs) \<and> distinct (map rid c5_rooms) \<and>
   ''room_000000c1'' \<in> set (connections (store (generateCorridors revShuffle c5_rooms 0.4) ! 0)) \<and>
   ''room_0000000a'' \<in> set (connections (store (generateCorridors revShuffle c5_rooms 0.4) ! 2))"
proof -
  define out where "out = generateCorridors revShuffle c5_rooms 0.4"
  obtain c where cin: "c \<in> set (topoCorridors out)"
    and fc: "fromRoom c = ''room_0000000a''" and tc: "toRoom c = ''room_000000c1''"
    using c5_first_corridor unfolding out_def by blast
  have ids: "rid (c5_rooms ! 0) = fromRoom c" "rid (c5_rooms ! 2) = toRoom c"
    and l: "0 < length c5_rooms" "2 < length c5_rooms"
    unfolding fc tc
    by (simp_all add: c5_rooms_def c4_roomA_def c1_room_def generatedRoom_def)
  have B: "\<forall>c \<in> set (topoCorridors out).
        (\<exists>a < length c5_rooms. rid (c5_rooms ! a) = fromRoom c) \<and>
        (\<exists>b < length c5_rooms. rid (c5_rooms ! b) = toRoom c) \<and>
        (\<forall>a < length c5_rooms. rid (c5_rooms ! a) = fromRoom c \<longrightarrow>
           toRoom c \<in> set (connections (store out ! a))) \<and>
        (\<forall>b < length c5_rooms. rid (c5_rooms ! b) = toRoom c \<longrightarrow>
           fromRoom c \<in> set (connections (store out ! b)))"
    unfolding out_def
    using corridors_symmetric_unique [where shuffle = revShuffle and threshold = "0.4",
        OF revShuffle_perm c5_rooms_facts(2)]
    by (rule conjunct1)
  note C = B [rule_format, OF cin]
  have "toRoom c \<in> set (connections (store out ! 0))"
    using C [THEN conjunct2, THEN conjunct2, THEN conjunct1, rule_format, OF l(1) ids(1)] .
  moreover have "fromRoom c \<in> set (connections (store out ! 2))"
    using C [THEN conjunct2, THEN conjunct2, THEN conjunct2, rule_format, OF l(2) ids(2)] .
  moreover have "\<forall>k xs. mset (revShuffle k xs) = mset xs" using revShuffle_perm by blast
  ultimately show ?thesis
    using c5_rooms_facts(2) unfolding out_def fc tc by blast
qed

subsection \<open>Connectivity\<close>

lemma bar_split:
  assumes "CHR ''|'' \<notin> set a" and "CHR ''|'' \<notin> set a'"
    and "a @ ''|'' @ b = a' @ ''|'' @ b'"
  shows "a = a' \<and> b = b'"
proof -
  have t: "takeWhile (\<lambda>c. c \<noteq> CHR ''|'') (x @ ''|'' @ y) = x" if "CHR ''|'' \<notin> set x" for x y
    using that by (subst takeWhile_append2) auto
  have "a = a'" using t [OF assms(1), of b] t [OF assms(2), of b'] assms(3) by simp
  then show ?thesis using assms(3) by simp
qed

lemma corridorKey_inj:
  assumes "CHR ''|'' \<notin> set x" "CHR ''|'' \<notin> set y" "CHR ''|'' \<notin> set x'" "CHR ''|'' \<notin> set y'"
    and "corridorKey x y = corridorKey x' y'"
  shows "(x = x' \<and> y = y') \<or> (x = y' \<and> y = x')"
proof (cases "x < y"; cases "x' < y'")
  assume "x < y" "x' < y'"
  then have "x @ ''|'' @ y = x' @ ''|'' @ y'" using assms(5) by (simp add: corridorKey_def)
  then show ?thesis using bar_split [OF assms(1,3)] by blast
next
  assume "x < y" "\<not> x' < y'"
  then have "x @ ''|'' @ y = y' @ ''|'' @ x'" using assms(5) by (simp add: corridorKey_def)
  then show ?thesis using bar_split [OF assms(1,4)] by blast
next
  assume "\<not> x < y" "x' < y'"
  then have "y @ ''|'' @ x = x' @ ''|'' @ y'" using assms(5) by (simp add: corridorKey_def)
  then show ?thesis using bar_split [OF assms(2,3)] by blast
next
  assume "\<not> x < y" "\<not> x' < y'"
  then have "y @ ''|'' @ x = y' @ ''|'' @ x'" using assms(5) by (simp add: corridorKey_def)
  then show ?thesis using bar_split [OF assms(2,4)] by blast
qed

lemma static_rids:
  assumes "map dropConnections xs = map dropConnections ys"
  shows "map rid xs = map rid ys"
proof -
  have "map rid xs = map rid (map dropConnections xs)" by (simp add: comp_def)
  also have "\<dots> = map rid (map dropConnections ys)" using assms by simp
  also have "\<dots> = map rid ys" by (simp add: comp_def)
  finally show ?thesis .
qed

lemma key_fresh:
  assumes ok: "edgesOk n s" and len: "length (store s) = n"
    and ids: "distinct (map rid (store s))"
    and bars: "\<forall>r \<in> set (store s). CHR ''|'' \<notin> set (rid r)"
    and room: "room < n" and b: "b < n"
    and empty: "connections (store s ! room) = []"
  shows "corridorKey (rid (store s ! room)) (rid (store s ! b)) \<notin> corridorSet s"
proof
  assume "corridorKey (rid (store s ! room)) (rid (store s ! b)) \<in> corridorSet s"
  then have "corridorKey (rid (store s ! room)) (rid (store s ! b))
               \<in> set (map corridorPairKey (topoCorridors s))"
    using edgesOk_keys [OF ok] by simp
  then obtain c where c: "c \<in> set (topoCorridors s)"
    and k: "corridorPairKey c = corridorKey (rid (store s ! room)) (rid (store s ! b))"
    by auto
  obtain a' b' where ab: "a' < n" "b' < n" "fromRoom c = rid (store s ! a')"
      "toRoom c = rid (store s ! b')" "toRoom c \<in> set (connections (store s ! a'))"
      "fromRoom c \<in> set (connections (store s ! b'))"
    using edgesOk_ends [OF ok c] by blast
  have nobar: "CHR ''|'' \<notin> set (rid (store s ! i))" if "i < n" for i
    using bars that len nth_mem [of i "store s"] by simp
  have "corridorKey (rid (store s ! a')) (rid (store s ! b')) =
          corridorKey (rid (store s ! room)) (rid (store s ! b))"
    using k ab(3,4) by (simp add: corridorPairKey_def)
  then have "(rid (store s ! a') = rid (store s ! room) \<and> rid (store s ! b') = rid (store s ! b)) \<or>
             (rid (store s ! a') = rid (store s ! b) \<and> rid (store s ! b') = rid (store s ! room))"
    by (rule corridorKey_inj [OF nobar [OF ab(1)] nobar [OF ab(2)] nobar [OF room] nobar [OF b]])
  then have "rid (store s ! a') = rid (store s ! room) \<or> rid (store s ! b') = rid (store s ! room)"
    by blast
  then have "a' = room \<or> b' = room"
    using distinct_rid_index [OF ids, of a' room] distinct_rid_index [OF ids, of b' room]
      ab(1,2) room len by auto
  then have "connections (store s ! room) \<noteq> []"
    using ab(5,6) by auto
  then show False using empty by simp
qed

lemma bestStep_keeps_some:
  "snd best \<noteq> None \<Longrightarrow> snd (bestStep st room best c) \<noteq> None"
  by (simp add: bestStep_def Let_def)

lemma bestCandidate_some_aux:
  assumes "snd best \<noteq> None \<or>
           (fst best = - 1 \<and>
            (\<exists>c \<in> set cs. rid (st ! c) \<noteq> rid (st ! room) \<and> similarity (st ! room) (st ! c) > - 1))"
  shows "snd (foldl (bestStep st room) best cs) \<noteq> None"
  using assms
proof (induction cs arbitrary: best)
  case Nil
  then show ?case by simp
next
  case (Cons c cs)
  have "snd (bestStep st room best c) \<noteq> None \<or>
        (fst (bestStep st room best c) = - 1 \<and>
         (\<exists>c' \<in> set cs. rid (st ! c') \<noteq> rid (st ! room) \<and> similarity (st ! room) (st ! c') > - 1))"
  proof (cases "snd best \<noteq> None")
    case True
    then show ?thesis by (simp add: bestStep_keeps_some)
  next
    case False
    then have f: "fst best = - 1"
      and ex: "\<exists>c' \<in> set (c # cs). rid (st ! c') \<noteq> rid (st ! room) \<and>
                 similarity (st ! room) (st ! c') > - 1"
      using Cons.prems by auto
    show ?thesis
    proof (cases "rid (st ! c) \<noteq> rid (st ! room) \<and> similarity (st ! room) (st ! c) > - 1")
      case True
      then show ?thesis using f by (simp add: bestStep_def Let_def)
    next
      case False
      then have "\<exists>c' \<in> set cs. rid (st ! c') \<noteq> rid (st ! room) \<and>
                 similarity (st ! room) (st ! c') > - 1"
        using ex by auto
      moreover have "fst (bestStep st room best c) = - 1 \<or> snd (bestStep st room best c) \<noteq> None"
        using f by (simp add: bestStep_def Let_def)
      ultimately show ?thesis by blast
    qed
  qed
  then show ?case using Cons.IH [of "bestStep st room best c"] by simp
qed

lemma bestCandidate_some:
  assumes "c \<in> set cs" and "rid (st ! c) \<noteq> rid (st ! room)"
    and "similarity (st ! room) (st ! c) > - 1"
  shows "\<exists>b. snd (bestCandidate st room cs) = Some b"
proof -
  have "snd (foldl (bestStep st room) (- 1, None) cs) \<noteq> None"
    by (rule bestCandidate_some_aux) (use assms in auto)
  then show ?thesis unfolding bestCandidate_def by auto
qed

lemma similarity_dropConnections:
  "similarity (dropConnections a) (dropConnections b) = similarity a b"
  by (simp add: similarity_def dropConnections_def)

lemma similarity_static:
  assumes "dropConnections a = dropConnections a'" and "dropConnections b = dropConnections b'"
  shows "similarity a b = similarity a' b'"
  using similarity_dropConnections [of a b] similarity_dropConnections [of a' b'] assms by simp

lemma distinct_other:
  assumes "distinct xs" and "length xs > 1"
  shows "\<exists>c \<in> set xs. c \<noteq> r"
proof -
  obtain x y zs where "xs = x # y # zs"
    using assms(2) by (cases xs; cases "tl xs") auto
  then show ?thesis using assms(1) by auto
qed

lemma ensureRoom_connects:
  assumes r: "topoReach n (initialTopo rs) s" and n: "n = length rs" and big: "1 < n"
    and ids: "distinct (map rid rs)"
    and bars: "\<forall>r \<in> set rs. CHR ''|'' \<notin> set (rid r)"
    and sent: "\<forall>r \<in> set rs. \<bar>sentiment r\<bar> \<le> 1"
    and room: "room < n"
  shows "connections (store (ensureRoom s room) ! room) \<noteq> []"
proof (cases "connections (store s ! room) = []")
  case False
  then show ?thesis by (simp add: ensureRoom_def)
next
  case True
  have wf: "wfTopo n s" using r wf_initial [of rs] unfolding n by (rule reach_wf)
  have len: "length (store s) = n" using wf by (simp add: wfTopo_def)
  have st: "map dropConnections (store s) = map dropConnections rs"
    using reach_static [OF r] by (simp add: initialTopo_def)
  have rids: "map rid (store s) = map rid rs" using st by (rule static_rids)
  have ids': "distinct (map rid (store s))" using ids rids by simp
  have bars': "\<forall>r \<in> set (store s). CHR ''|'' \<notin> set (rid r)"
  proof
    fix q assume "q \<in> set (store s)"
    then have "rid q \<in> set (map rid rs)" using rids by (metis image_eqI set_map)
    then show "CHR ''|'' \<notin> set (rid q)" using bars by auto
  qed
  define cands where
    "cands = (if length (getGroup s (topic (store s ! room))) > 1
              then getGroup s (topic (store s ! room))
              else [0..<min 50 (length (store s))])"
  have idx: "\<forall>i \<in> set cands. i < n"
    unfolding cands_def by (rule ensureRoom_candidates [OF wf])
  have "\<exists>c \<in> set cands. c \<noteq> room"
  proof (cases "length (getGroup s (topic (store s ! room))) > 1")
    case True
    then show ?thesis
      using distinct_other [of "getGroup s (topic (store s ! room))" room] wf_getGroup [OF wf]
      by (simp add: cands_def)
  next
    case False
    have "0 \<in> set [0..<min 50 n]" and "1 \<in> set [0..<min 50 n]" using big by simp_all
    then have "\<exists>c \<in> set [0..<min 50 n]. c \<noteq> room"
      by (metis zero_neq_one)
    then show ?thesis using False by (simp add: cands_def len)
  qed
  then obtain c where c: "c \<in> set cands" "c \<noteq> room" by blast
  then have cn: "c < n" using idx by simp
  have "rid (store s ! c) \<noteq> rid (store s ! room)"
    using distinct_rid_index [OF ids', of c room] c(2) cn room len by auto
  moreover have "similarity (store s ! room) (store s ! c) > - 1"
  proof -
    have "similarity (store s ! room) (store s ! c) = similarity (rs ! room) (rs ! c)"
      using static_nth [OF st] room cn n by (intro similarity_static) simp_all
    moreover have "- (3 / 10) \<le> similarity (rs ! room) (rs ! c)"
      using sent room cn n by (intro similarity_lower) simp_all
    ultimately show ?thesis by simp
  qed
  ultimately obtain b where best: "snd (bestCandidate (store s) room cands) = Some b"
    using bestCandidate_some [OF c(1)] by blast
  then have bn: "b < n" using bestCandidate_member idx by blast
  have er: "ensureRoom s room = addCorridor room b (fst (bestCandidate (store s) room cands)) s"
    using True best big len by (simp add: ensureRoom_def Let_def cands_def)
  have "corridorKey (rid (store s ! room)) (rid (store s ! b)) \<notin> corridorSet s"
    using reach_edgesOk [OF r edgesOk_initial] len ids' bars' room bn True
    by (intro key_fresh) (simp_all add: initialTopo_def n)
  then have "rid (store s ! b) \<in> set (connections (store (ensureRoom s room) ! room))"
    unfolding er using addCorridor_new_connections [of room s b] room bn len by simp
  then show ?thesis by auto
qed

lemma ensure_loop:
  assumes r: "topoReach n (initialTopo rs) s" and n: "n = length rs" and big: "1 < n"
    and ids: "distinct (map rid rs)"
    and bars: "\<forall>r \<in> set rs. CHR ''|'' \<notin> set (rid r)"
    and sent: "\<forall>r \<in> set rs. \<bar>sentiment r\<bar> \<le> 1"
  shows "k \<le> n \<Longrightarrow>
         topoReach n (initialTopo rs) (foldl ensureRoom s [0..<k]) \<and>
         (\<forall>i < k. connections (store (foldl ensureRoom s [0..<k]) ! i) \<noteq> [])"
proof (induction k)
  case 0
  then show ?case using r by simp
next
  case (Suc k)
  define sk where "sk = foldl ensureRoom s [0..<k]"
  have rk: "topoReach n (initialTopo rs) sk"
    and nonempty: "\<forall>i < k. connections (store sk ! i) \<noteq> []"
    using Suc unfolding sk_def by simp_all
  have kn: "k < n" using Suc.prems by simp
  have wf0: "wfTopo n (initialTopo rs)" unfolding n by (rule wf_initial)
  have wfk: "wfTopo n sk" using rk wf0 by (rule reach_wf)
  have step: "foldl ensureRoom s [0..<Suc k] = ensureRoom sk k" by (simp add: sk_def)
  have r': "topoReach n (initialTopo rs) (ensureRoom sk k)"
    using wf0 rk kn by (rule ensureRoom_reach)
  have local: "topoReach n sk (ensureRoom sk k)"
    using wfk reachRefl kn by (rule ensureRoom_reach)
  have "connections (store (ensureRoom sk k) ! i) \<noteq> []" if "i < Suc k" for i
  proof (cases "i = k")
    case True
    then show ?thesis using ensureRoom_connects [OF rk n big ids bars sent kn] by simp
  next
    case False
    then have "connections (store sk ! i) \<noteq> []" using that nonempty by simp
    then show ?thesis using reach_grow [OF local, of i] by auto
  qed
  then show ?case unfolding step using r' by blast
qed

lemma grouped_every_room_connected:
  assumes perm: "\<And>k xs. mset (shuffle k xs) = mset xs"
    and big: "1 < length rs"
    and ids: "distinct (map rid rs)"
    and bars: "\<forall>r \<in> set rs. CHR ''|'' \<notin> set (rid r)"
    and sent: "\<forall>r \<in> set rs. \<bar>sentiment r\<bar> \<le> 1"
  shows "length (store (generateCorridors shuffle rs threshold)) = length rs \<and>
         (\<forall>i < length rs. connections (store (generateCorridors shuffle rs threshold) ! i) \<noteq> [])"
proof -
  define s2 where "s2 = crossTopic shuffle threshold (intraTopic threshold (initialTopo rs))"
  have r2: "topoReach (length rs) (initialTopo rs) s2"
    unfolding s2_def by (intro crossTopic_reach intraTopic_reach wf_initial reachRefl perm)
  have len: "length (store s2) = length rs"
    using reach_length [OF r2] by (simp add: initialTopo_def)
  have out: "generateCorridors shuffle rs threshold = foldl ensureRoom s2 [0..<length rs]"
    unfolding generateCorridors_initial ensureConnectivity_def s2_def [symmetric] len ..
  have "topoReach (length rs) (initialTopo rs) (foldl ensureRoom s2 [0..<length rs]) \<and>
        (\<forall>i < length rs. connections (store (foldl ensureRoom s2 [0..<length rs]) ! i) \<noteq> [])"
    by (rule ensure_loop [OF r2 refl big ids bars sent]) simp
  then show ?thesis
    unfolding out using reach_length [of "length rs" "initialTopo rs"] by (simp add: initialTopo_def)
qed

subsection \<open>The earlier generateCorridors\<close>















text \<open>The same three rooms through the earlier version.\<close>

lemma plain_run:
  "map (\<lambda>c. (fromRoom c, toRoom c)) (plainCorridors (generateCorridorsPlain c5_rooms 0.4)) =
     [(''room_0000000a'', ''room_000000c1''), (''room_0000000b'', ''room_000000c1'')] \<and>
   map connections (plainStore (generateCorridorsPlain c5_rooms 0.4)) =
     [[''room_000000c1''], [''room_000000c1''], [''room_0000000a'', ''room_0000000b'']]"
  by code_simp

section \<open>Properties of the cycle\<close>

text \<open>
  Claim C9: when ingestion yields no observation, the cycle returns right after the
  ingestion step and the whole world (rooms, corridors, artifacts, inhabitants, events,
  memory, cycle counter, timestamps; the tracker's inhabitants too) is unchanged.
\<close>

theorem cycle_without_observations: "cycle env [] w = w"
  by (simp add: cycle_def)

text \<open>With an observation the cycle does run: the counter advances.\<close>

lemma cycle_counts:
  "observations \<noteq> [] \<Longrightarrow>
     observationCycles (wState (cycle env observations w)) =
       observationCycles (midState (cycleMiddle env (generateRooms env observations)
          (updateEntities env observations (wTracker w)) (wState w))) + 1"
  by (simp add: cycle_def Let_def recordEvents_def)

lemma c2_no_decay: "decayStep c2_env (wState c2_world) = emptyState"
  by (simp add: decayStep_def c2_world_def emptyState_def)

text \<open>
  Claim C2: in every cycle a \<open>topic emerged\<close> event is produced exactly for each topic
  that appears among the newly admitted rooms and was absent from the rooms that existed
  before their admission.  \<open>cycle\<close> pushes the new rooms to \<open>state.rooms\<close> (step 6)
  before it calls \<open>EventTracker.detect\<close> (step 9), so \<open>detect\<close> finds every new topic
  among the existing ones.  In the first cycle of an empty world that admits one room of
  topic \<open>tech\<close>, no event at all is produced.
\<close>

theorem first_topic_emits_no_event:
  "rooms (wState c2_world) = [] \<and>
   map topic (midNewRooms (cycleMiddle c2_env (generateRooms c2_env [()])
       (updateEntities c2_env [()] (wTracker c2_world)) (wState c2_world))) = [''tech''] \<and>
   cycleEvents c2_env (cycleMiddle c2_env (generateRooms c2_env [()])
       (updateEntities c2_env [()] (wTracker c2_world)) (wState c2_world)) = [] \<and>
   events (wState (cycle c2_env [()] c2_world)) = []"
  apply (simp only: cycle_def cycleMiddle_def c2_no_decay)
  apply code_simp
  done

text \<open>
  \<open>detect\<close> itself reports the topics of the new rooms that the rooms of its \<open>state\<close>
  argument lack (lemma \<open>detect_emerged\<close>); in \<open>cycle\<close> that set is empty, for every
  input (lemma \<open>cycle_never_emits_topic_emerged\<close>).
\<close>

lemma newTopics_set:
  "set (foldl (\<lambda>s room. if topic room \<notin> set existing then setAdd s (topic room) else s) acc newRooms)
     = set acc \<union> (topic ` set newRooms - set existing)"
  by (induction newRooms arbitrary: acc) (auto simp: setAdd_def)

lemma eventKind_topicEvent [simp]: "eventKind (topicEvent now kind rs t) = kind"
  and subject_topicEvent [simp]: "subject (topicEvent now kind rs t) = t"
  by (simp_all add: topicEvent_def)

lemma eventKind_dominantEvent [simp]: "eventKind (dominantEvent now e) = EntityDominant"
  by (simp add: dominantEvent_def)

lemma filter_map_const_kind:
  "k \<noteq> TopicEmerged \<Longrightarrow> filter (\<lambda>e. eventKind e = TopicEmerged) (map (topicEvent now k rs) ts) = []"
  by (simp add: filter_empty_conv)

lemma detect_emerged:
  assumes "\<forall>e \<in> set pruneEvs. eventKind e \<noteq> TopicEmerged"
  shows "set (map subject (filter (\<lambda>e. eventKind e = TopicEmerged)
                (detect now st newRooms prunedRooms pruneEvs)))
           = topic ` set newRooms - topic ` set (rooms st)"
proof -
  define newTopics where
    "newTopics = foldl (\<lambda>s room. if topic room \<notin> set (map topic (rooms st))
                                  then setAdd s (topic room) else s) [] newRooms"
  have p: "filter (\<lambda>e. eventKind e = TopicEmerged) pruneEvs = []"
    using assms by (simp add: filter_empty_conv)
  have "filter (\<lambda>e. eventKind e = TopicEmerged) (detect now st newRooms prunedRooms pruneEvs)
          = map (topicEvent now TopicEmerged newRooms) newTopics"
    unfolding detect_def Let_def newTopics_def [symmetric]
    by (simp add: p filter_empty_conv)
  then have "set (map subject (filter (\<lambda>e. eventKind e = TopicEmerged)
                (detect now st newRooms prunedRooms pruneEvs))) = set newTopics"
    by (simp add: comp_def)
  then show ?thesis unfolding newTopics_def newTopics_set by simp
qed

lemma pruneStep_kinds:
  "\<forall>e \<in> set (accEvents acc). eventKind e = RoomPruned \<Longrightarrow>
   \<forall>e \<in> set (accEvents (pruneStep now c nb pids acc ru)). eventKind e = RoomPruned"
  by (simp add: pruneStep_def Let_def)

lemma pruneSteps_kinds:
  "\<forall>e \<in> set (accEvents acc). eventKind e = RoomPruned \<Longrightarrow>
   \<forall>e \<in> set (accEvents (foldl (pruneStep now c nb pids) acc rus)). eventKind e = RoomPruned"
proof (induction rus arbitrary: acc)
  case Nil
  then show ?case by simp
next
  case (Cons ru rus)
  have "\<forall>e \<in> set (accEvents (pruneStep now c nb pids acc ru)). eventKind e = RoomPruned"
    using Cons.prems by (rule pruneStep_kinds)
  then show ?case using Cons.IH by simp
qed

lemma prune_event_kinds:
  "\<forall>e \<in> set (pruneEvents (prune rnd now st sc)). eventKind e = RoomPruned"
proof -
  have "\<forall>e \<in> set (accEvents
          (foldl (pruneStep now c nb pids) \<lparr> accKeep = k, accFragments = [], accEvents = [] \<rparr> rus)).
          eventKind e = RoomPruned" for c nb pids k rus
    by (rule pruneSteps_kinds) simp
  then show ?thesis unfolding prune_def Let_def by simp
qed

lemma topic_dropConnections [simp]: "topic (dropConnections r) = topic r"
  by (simp add: dropConnections_def)

lemma static_topics:
  assumes "map dropConnections xs = map dropConnections ys"
  shows "map topic xs = map topic ys"
proof -
  have "map topic xs = map topic (map dropConnections xs)" by (simp add: comp_def)
  also have "\<dots> = map topic (map dropConnections ys)" using assms by simp
  also have "\<dots> = map topic ys" by (simp add: comp_def)
  finally show ?thesis .
qed

lemma rebuild_topics:
  assumes perm: "\<And>k xs. mset (envShuffle env k xs) = mset xs"
  shows "map topic (rooms (rebuildTopology env st)) = map topic (rooms st)"
proof -
  define cleared where "cleared = map (\<lambda>room. room\<lparr> connections := [] \<rparr>) (rooms st)"
  define topo where "topo = generateCorridors (envShuffle env) cleared 0.4"
  have "map topic (rooms (rebuildTopology env st)) =
          map (\<lambda>k. topic (store topo ! k)) [0..<length (store topo)]"
    by (simp add: rebuildTopology_def buildTopology_def Let_def cleared_def topo_def comp_def)
  also have "\<dots> = map topic (store topo)" by (rule nth_equalityI) simp_all
  also have "\<dots> = map topic cleared"
    unfolding topo_def by (rule static_topics [OF generateCorridors_static [OF perm]])
  also have "\<dots> = map topic (rooms st)" by (simp add: cleared_def comp_def)
  finally show ?thesis .
qed

lemma cycleMiddle_new_topics:
  assumes perm: "\<And>k xs. mset (envShuffle env k xs) = mset xs"
  shows "topic ` set (midNewRooms (cycleMiddle env nr tr st))
           \<subseteq> topic ` set (rooms (midState (cycleMiddle env nr tr st)))"
proof -
  have "set (map topic (rooms (midState (cycleMiddle env nr tr st)))) \<supseteq>
        set (map topic (midNewRooms (cycleMiddle env nr tr st)))"
    unfolding cycleMiddle_def Let_def by (simp add: rebuild_topics [OF perm])
  then show ?thesis by simp
qed

lemma cycle_never_emits_topic_emerged:
  assumes perm: "\<And>k xs. mset (envShuffle env k xs) = mset xs"
  shows "filter (\<lambda>e. eventKind e = TopicEmerged) (cycleEvents env (cycleMiddle env nr tr st)) = []"
proof -
  define mid where "mid = cycleMiddle env nr tr st"
  have k: "\<forall>e \<in> set (pruneEvents (midPrune mid)). eventKind e \<noteq> TopicEmerged"
    unfolding mid_def cycleMiddle_def Let_def using prune_event_kinds by fastforce
  have "set (map subject (filter (\<lambda>e. eventKind e = TopicEmerged) (cycleEvents env mid))) = {}"
    unfolding cycleEvents_def detect_emerged [OF k]
    using cycleMiddle_new_topics [OF perm, of nr tr st] unfolding mid_def by blast
  then show ?thesis unfolding mid_def by simp
qed

text \<open>
  Step 8 of the cycle, the topology rebuild on the state's rooms: no room is left without
  a connection.
\<close>

lemma rebuild_connected:
  assumes perm: "\<And>k xs. mset (envShuffle env k xs) = mset xs"
    and big: "1 < length (rooms st)"
    and ids: "distinct (map rid (rooms st))"
    and bars: "\<forall>r \<in> set (rooms st). CHR ''|'' \<notin> set (rid r)"
    and sent: "\<forall>r \<in> set (rooms st). \<bar>sentiment r\<bar> \<le> 1"
  shows "length (rooms (rebuildTopology env st)) = length (rooms st) \<and>
         (\<forall>i < length (rooms st). connections (rooms (rebuildTopology env st) ! i) \<noteq> [])"
proof -
  define cleared where "cleared = map (\<lambda>room. room\<lparr> connections := [] \<rparr>) (rooms st)"
  define topo where "topo = generateCorridors (envShuffle env) cleared 0.4"
  have l: "length cleared = length (rooms st)" by (simp add: cleared_def)
  have r: "map rid cleared = map rid (rooms st)" by (simp add: cleared_def comp_def)
  have c: "length (store topo) = length cleared \<and>
           (\<forall>i < length cleared. connections (store topo ! i) \<noteq> [])"
    unfolding topo_def
  proof (rule grouped_every_room_connected [where shuffle = "envShuffle env"])
    show "mset (envShuffle env k xs) = mset xs" for k xs by (rule perm)
    show "1 < length cleared" using big l by simp
    show "distinct (map rid cleared)" using ids r by simp
    show "\<forall>r \<in> set cleared. CHR ''|'' \<notin> set (rid r)" using bars by (simp add: cleared_def)
    show "\<forall>r \<in> set cleared. \<bar>sentiment r\<bar> \<le> 1" using sent by (simp add: cleared_def)
  qed
  have rooms: "rooms (rebuildTopology env st) =
          map (\<lambda>k. (store topo ! k)
                 \<lparr> position := layoutPosition env (store topo) (topoCorridors topo) k \<rparr>)
            [0..<length (store topo)]"
    by (simp add: rebuildTopology_def buildTopology_def Let_def cleared_def topo_def)
  have "connections (rooms (rebuildTopology env st) ! i) = connections (store topo ! i)"
    if "i < length (store topo)" for i
    unfolding rooms using that by simp
  then show ?thesis using c l unfolding rooms by simp
qed

end
